theory Spec2Isabelle
  imports Main
begin

section \<open>JavaScript strings\<close>

text \<open>
  A JavaScript string is a sequence of UTF-16 code units; \<open>length\<close>, \<open>trim\<close> and a
  regular expression without the \<open>u\<close> flag all work on code units. A code unit is a
  natural number here, and \<open>js\<close> turns an ASCII literal into its code units.
\<close>

type_synonym jsstring = "nat list"

definition js :: "string \<Rightarrow> jsstring" where
  "js s = map of_char s"

text \<open>
  The code units that \<open>String.prototype.trim\<close> strips and that \<open>\s\<close> matches:
  ECMAScript's WhiteSpace and LineTerminator (tab, LF, VT, FF, CR, space, NBSP, U+1680,
  U+2000 to U+200A, U+2028, U+2029, U+202F, U+205F, U+3000, U+FEFF).
\<close>

definition isWhiteSpace :: "nat \<Rightarrow> bool" where
  "isWhiteSpace c =
     (c \<in> {9, 10, 11, 12, 13, 32, 160, 5760, 8232, 8233, 8239, 8287, 12288, 65279}
      \<or> (8192 \<le> c \<and> c \<le> 8202))"

definition trim :: "jsstring \<Rightarrow> jsstring" where
  "trim s = rev (dropWhile isWhiteSpace (rev (dropWhile isWhiteSpace s)))"

text \<open>Number to string conversion of a non-negative integer, as a template literal does it.\<close>

fun decimal :: "nat \<Rightarrow> jsstring" where
  "decimal n = (if n < 10 then [48 + n] else decimal (n div 10) @ [48 + n mod 10])"

declare decimal.simps [simp del]

section \<open>The regular expressions of the rules table\<close>

text \<open>
  The three patterns of \<open>VALIDATION_RULES\<close> have the shape \<open>^ p1 p2 ... pn $\<close>, each
  \<open>pi\<close> a literal character or \<open>[class]+\<close>. \<open>rx_test\<close> is \<open>RegExp.prototype.test\<close>
  for this shape (no flags, so \<open>^\<close> and \<open>$\<close> are the ends of the input): it tries every way
  of splitting the input among the pieces.
\<close>

datatype piece = Lit nat | Plus "nat \<Rightarrow> bool"

fun rx_test :: "piece list \<Rightarrow> jsstring \<Rightarrow> bool" where
  "rx_test [] [] = True"
| "rx_test [] (x # xs) = False"
| "rx_test (Lit c # ps) [] = False"
| "rx_test (Lit c # ps) (x # xs) = (x = c \<and> rx_test ps xs)"
| "rx_test (Plus cls # ps) [] = False"
| "rx_test (Plus cls # ps) (x # xs) =
     (cls x \<and> (rx_test ps xs \<or> rx_test (Plus cls # ps) xs))"

text \<open>\<open>[a-zA-Z\s'-]\<close>\<close>

definition name_class :: "nat \<Rightarrow> bool" where
  "name_class c =
     ((97 \<le> c \<and> c \<le> 122) \<or> (65 \<le> c \<and> c \<le> 90) \<or> isWhiteSpace c \<or> c = 39 \<or> c = 45)"

text \<open>\<open>[^\s@]\<close>\<close>

definition email_class :: "nat \<Rightarrow> bool" where
  "email_class c = (\<not> (isWhiteSpace c \<or> c = 64))"

text \<open>\<open>[\d\s()+-]\<close>\<close>

definition phone_class :: "nat \<Rightarrow> bool" where
  "phone_class c =
     ((48 \<le> c \<and> c \<le> 57) \<or> isWhiteSpace c \<or> c = 40 \<or> c = 41 \<or> c = 43 \<or> c = 45)"

text \<open>\<open>/^[a-zA-Z\s'-]+$/\<close>\<close>

definition name_pattern :: "piece list" where
  "name_pattern = [Plus name_class]"

text \<open>\<open>/^[^\s@]+@[^\s@]+\.[^\s@]+$/\<close>\<close>

definition email_pattern :: "piece list" where
  "email_pattern = [Plus email_class, Lit 64, Plus email_class, Lit 46, Plus email_class]"

text \<open>\<open>/^[\d\s()+-]+$/\<close>\<close>

definition phone_pattern :: "piece list" where
  "phone_pattern = [Plus phone_class]"

section \<open>Main script: the validation rules\<close>

record rule =
  required :: bool
  minLength :: "nat option"
  pattern :: "piece list option"
  message :: jsstring

text \<open>
  \<open>VALIDATION_RULES[fieldName]\<close> is a property read on a frozen object literal. The four
  own properties are the rules. A name that \<open>Object.prototype\<close> defines reads an inherited
  function or object instead: it is truthy and has none of \<open>required\<close>, \<open>minLength\<close>,
  \<open>pattern\<close>, which is the rule \<open>inherited_property\<close>. Every other name reads
  \<open>undefined\<close>.
\<close>

definition inherited_property :: rule where
  "inherited_property = \<lparr>required = False, minLength = None, pattern = None, message = []\<rparr>"

definition Object_prototype_names :: "jsstring list" where
  "Object_prototype_names = map js
     [''constructor'', ''hasOwnProperty'', ''isPrototypeOf'', ''propertyIsEnumerable'',
      ''toLocaleString'', ''toString'', ''valueOf'', ''__proto__'', ''__defineGetter__'',
      ''__defineSetter__'', ''__lookupGetter__'', ''__lookupSetter__'']"

definition VALIDATION_RULES :: "jsstring \<Rightarrow> rule option" where
  "VALIDATION_RULES fieldName =
     (if fieldName = js ''name'' then
        Some \<lparr>required = True, minLength = Some 2, pattern = Some name_pattern,
          message = js ''Please enter a valid name (letters, spaces, hyphens, and apostrophes only)''\<rparr>
      else if fieldName = js ''email'' then
        Some \<lparr>required = True, minLength = None, pattern = Some email_pattern,
          message = js ''Please enter a valid email address''\<rparr>
      else if fieldName = js ''phone'' then
        Some \<lparr>required = False, minLength = None, pattern = Some phone_pattern,
          message = js ''Please enter a valid phone number''\<rparr>
      else if fieldName = js ''message'' then
        Some \<lparr>required = True, minLength = Some 10, pattern = None,
          message = js ''Please enter a message (at least 10 characters)''\<rparr>
      else if fieldName \<in> set Object_prototype_names then Some inherited_property
      else None)"

section \<open>Main script: form fields and inline errors\<close>

datatype tag = Input | Textarea | Select

text \<open>
  A labelable form control. \<open>has_required\<close> is the HTML \<open>required\<close> attribute,
  \<open>label_text\<close> the text of \<open>field.labels[0]\<close> when there is one, \<open>form_group\<close> the
  \<open>.form-group\<close> ancestor that \<open>closest\<close> finds, \<open>class_error\<close> the class \<open>error\<close>.
\<close>

record field =
  field_name :: jsstring
  field_value :: jsstring
  defaultValue :: jsstring
  field_tag :: tag
  has_required :: bool
  label_text :: "jsstring option"
  form_group :: "nat option"
  class_error :: bool
  aria_invalid :: "jsstring option"

text \<open>
  The \<open>.field-error\<close> elements of each form group, by their text, in document order.
  Console output is not part of the state.
\<close>

type_synonym error_spans = "nat \<Rightarrow> jsstring list"

definition showFieldError :: "field \<Rightarrow> jsstring \<Rightarrow> error_spans \<Rightarrow> field \<times> error_spans" where
  "showFieldError f msg G =
     (case form_group f of
        None \<Rightarrow> (f, G)
      | Some g \<Rightarrow>
          (f\<lparr>class_error := True, aria_invalid := Some (js ''true'')\<rparr>,
           G(g := drop 1 (G g) @ [msg])))"

definition clearFieldError :: "field \<Rightarrow> error_spans \<Rightarrow> field \<times> error_spans" where
  "clearFieldError f G =
     (case form_group f of
        None \<Rightarrow> (f, G)
      | Some g \<Rightarrow> (f\<lparr>class_error := False, aria_invalid := None\<rparr>, G(g := drop 1 (G g))))"

text \<open>\<open>`${field.labels[0]?.textContent || 'This field'} is required`\<close>\<close>

definition required_message :: "field \<Rightarrow> jsstring" where
  "required_message f =
     (case label_text f of
        None \<Rightarrow> js ''This field''
      | Some t \<Rightarrow> if t = [] then js ''This field'' else t) @ js '' is required''"

definition validateField :: "field \<Rightarrow> error_spans \<Rightarrow> bool \<times> field \<times> error_spans" where
  "validateField f G =
     (let fieldValue = trim (field_value f) in
      case VALIDATION_RULES (field_name f) of
        None \<Rightarrow> (True, f, G)
      | Some rules \<Rightarrow>
          (let patternValidation =
                 (if (case pattern rules of
                        None \<Rightarrow> False
                      | Some p \<Rightarrow> \<not> rx_test p fieldValue)
                  then (False, showFieldError f (message rules) G)
                  else (True, clearFieldError f G))
           in if required rules \<and> fieldValue = [] then
                (False, showFieldError f (required_message f) G)
              else if fieldValue = [] \<and> \<not> required rules then (True, f, G)
              else
                (case minLength rules of
                   None \<Rightarrow> patternValidation
                 | Some n \<Rightarrow>
                     if n \<noteq> 0 \<and> length fieldValue < n then
                       (False, showFieldError f
                          (js ''Must be at least '' @ decimal n @ js '' characters'') G)
                     else patternValidation)))"

section \<open>Main script: validating the whole form\<close>

text \<open>The selector \<open>input[required], textarea[required]\<close>.\<close>

definition required_selector :: "field \<Rightarrow> bool" where
  "required_selector f = ((field_tag f = Input \<or> field_tag f = Textarea) \<and> has_required f)"

text \<open>The \<open>forEach\<close> of \<open>validateForm\<close> over the controls of the form, in document order.\<close>

fun validateForm_each :: "field list \<Rightarrow> bool \<Rightarrow> error_spans \<Rightarrow> bool \<times> field list \<times> error_spans" where
  "validateForm_each [] isValid G = (isValid, [], G)"
| "validateForm_each (f # fs) isValid G =
     (if required_selector f then
        (case validateField f G of
           (ok, f', G') \<Rightarrow>
             (case validateForm_each fs (if \<not> ok then False else isValid) G' of
                (v, fs', G'') \<Rightarrow> (v, f' # fs', G'')))
      else
        (case validateForm_each fs isValid G of
           (v, fs', G'') \<Rightarrow> (v, f # fs', G'')))"

definition validateForm :: "field list \<Rightarrow> error_spans \<Rightarrow> bool \<times> field list \<times> error_spans" where
  "validateForm fs G = validateForm_each fs True G"

section \<open>Timers\<close>

text \<open>
  The browser's timer queue: the clock in milliseconds, the pending timers (identifier, due
  time, callback) and the last identifier handed out. \<open>setTimeout\<close> returns a fresh
  positive identifier; a timer may fire once the clock has reached its due time.
\<close>

record 'cb scheduler =
  now :: nat
  timers :: "(nat \<times> nat \<times> 'cb) list"
  last_timer :: nat

definition setTimeout :: "'cb \<Rightarrow> nat \<Rightarrow> ('cb, 'm) scheduler_scheme \<Rightarrow> ('cb, 'm) scheduler_scheme" where
  "setTimeout cb delay s =
     s\<lparr>timers := timers s @ [(Suc (last_timer s), now s + delay, cb)],
       last_timer := Suc (last_timer s)\<rparr>"

definition clearTimeout :: "nat \<Rightarrow> ('cb, 'm) scheduler_scheme \<Rightarrow> ('cb, 'm) scheduler_scheme" where
  "clearTimeout i s = s\<lparr>timers := filter (\<lambda>t. fst t \<noteq> i) (timers s)\<rparr>"

definition tick :: "nat \<Rightarrow> ('cb, 'm) scheduler_scheme \<Rightarrow> ('cb, 'm) scheduler_scheme" where
  "tick d s = s\<lparr>now := now s + d\<rparr>"

text \<open>The callback of timer \<open>i\<close> when that timer is pending and due.\<close>

definition due_callback :: "nat \<Rightarrow> ('cb, 'm) scheduler_scheme \<Rightarrow> 'cb option" where
  "due_callback i s =
     (case map_of (timers s) i of
        None \<Rightarrow> None
      | Some (due, cb) \<Rightarrow> if due \<le> now s then Some cb else None)"

section \<open>Main script: the submit button\<close>

text \<open>
  The parts of an element, and of a button, that the scripts touch: the class list, the
  attributes, the \<open>disabled\<close> flag and the content. \<open>textContent\<close> is kept beside
  \<open>innerHTML\<close> for the main script, which reads it; after an assignment of
  \<open><span>text</span>\<close> it is that text (a text read from \<open>textContent\<close> is taken to
  hold no markup).
\<close>

record element =
  classList :: "string set"
  attributes :: "string \<rightharpoonup> jsstring"

record button = element +
  disabled :: bool
  innerHTML :: jsstring

record text_button = button +
  textContent :: jsstring

definition setButtonState :: "text_button option \<Rightarrow> string \<Rightarrow> text_button option" where
  "setButtonState button state =
     (case button of
        None \<Rightarrow> None
      | Some b \<Rightarrow>
          (let b1 = b\<lparr>classList := classList b - {''loading'', ''success'', ''error''},
                      disabled := False\<rparr>;
               originalText =
                 (case attributes b1 ''data-original-text'' of
                    None \<Rightarrow> textContent b1
                  | Some t \<Rightarrow> if t = [] then textContent b1 else t);
               b2 = (if attributes b1 ''data-original-text'' = None
                     then b1\<lparr>attributes := (attributes b1)(''data-original-text'' \<mapsto> originalText)\<rparr>
                     else b1)
           in Some
             (if state = ''loading'' then
                b2\<lparr>classList := insert ''loading'' (classList b2), disabled := True,
                   innerHTML := js ''<span>Sending...</span>'', textContent := js ''Sending...''\<rparr>
              else if state = ''success'' then
                b2\<lparr>classList := insert ''success'' (classList b2), disabled := True,
                   innerHTML := js ''<span>Message Sent!</span>'',
                   textContent := js ''Message Sent!''\<rparr>
              else if state = ''error'' then
                b2\<lparr>classList := insert ''error'' (classList b2),
                   innerHTML := js ''<span>Failed - Try Again</span>'',
                   textContent := js ''Failed - Try Again''\<rparr>
              else
                b2\<lparr>innerHTML := js ''<span>'' @ originalText @ js ''</span>'',
                   textContent := originalText\<rparr>)))"

section \<open>Main script: submitting the form\<close>

definition FORM_SUCCESS_DURATION :: nat where
  "FORM_SUCCESS_DURATION = 3000"

text \<open>
  The callbacks the form code hands to \<open>setTimeout\<close>: the timer inside
  \<open>simulateFormSubmission\<close>, whose firing settles the promise and resumes
  \<open>handleFormSubmit\<close> after its \<open>await\<close>, and the two timers that put the button back.
\<close>

datatype form_callback = SimulatedSubmission | ResetAfterSuccess | DefaultAfterError

text \<open>
  The page as the form code sees it: the controls of the contact form, the inline error
  elements, the \<open>.form-error\<close> banners (first in the document first), the submit button
  that \<open>form.querySelector\<close> finds (if any), and the number of calls of
  \<open>simulateFormSubmission\<close> so far.
\<close>

record form_page = "form_callback scheduler" +
  inputs :: "field list"
  spans :: error_spans
  form_errors :: "jsstring list"
  submit_button :: "text_button option"
  sim_calls :: nat

text \<open>
  \<open>form.querySelectorAll('.error')\<close> finds the controls with class \<open>error\<close> and also
  the submit button when \<open>setButtonState\<close> has given it that class.
\<close>

definition clearAllErrors :: "form_page \<Rightarrow> form_page" where
  "clearAllErrors p =
     p\<lparr>spans := (\<lambda>g. []),
       inputs := map (\<lambda>f. if class_error f
                           then f\<lparr>class_error := False, aria_invalid := None\<rparr> else f) (inputs p),
       submit_button := map_option
          (\<lambda>b. if ''error'' \<in> classList b
               then b\<lparr>classList := classList b - {''error''},
                      attributes := (attributes b)(''aria-invalid'' := None)\<rparr>
               else b) (submit_button p),
       form_errors := drop 1 (form_errors p)\<rparr>"

definition showFormError :: "jsstring \<Rightarrow> form_page \<Rightarrow> form_page" where
  "showFormError msg p = p\<lparr>form_errors := msg # form_errors p\<rparr>"

definition simulateFormSubmission :: "form_page \<Rightarrow> form_page" where
  "simulateFormSubmission p = setTimeout SimulatedSubmission 2000 (p\<lparr>sim_calls := Suc (sim_calls p)\<rparr>)"

text \<open>\<open>handleFormSubmit\<close> up to its \<open>await\<close>.\<close>

definition handleFormSubmit :: "form_page \<Rightarrow> form_page" where
  "handleFormSubmit p =
     (let p1 = clearAllErrors p in
      case validateForm (inputs p1) (spans p1) of
        (isValid, fs, G) \<Rightarrow>
          (let p2 = p1\<lparr>inputs := fs, spans := G\<rparr> in
           if \<not> isValid then p2
           else simulateFormSubmission
                  (p2\<lparr>submit_button := setButtonState (submit_button p2) ''loading''\<rparr>)))"

text \<open>\<open>handleFormSubmit\<close> after its \<open>await\<close>: the promise resolved, or it rejected.\<close>

definition submission_resolved :: "form_page \<Rightarrow> form_page" where
  "submission_resolved p =
     setTimeout ResetAfterSuccess FORM_SUCCESS_DURATION
       (p\<lparr>submit_button := setButtonState (submit_button p) ''success''\<rparr>)"

definition submission_rejected :: "form_page \<Rightarrow> form_page" where
  "submission_rejected p =
     showFormError (js ''An error occurred. Please try again later.'')
       (setTimeout DefaultAfterError FORM_SUCCESS_DURATION
          (p\<lparr>submit_button := setButtonState (submit_button p) ''error''\<rparr>))"

text \<open>
  Running a timer callback. \<open>ok\<close> is the outcome of \<open>Math.random() > 0.1\<close> in the
  simulated submission.
\<close>

definition form_callback_run :: "form_callback \<Rightarrow> bool \<Rightarrow> form_page \<Rightarrow> form_page" where
  "form_callback_run cb ok p =
     (case cb of
        SimulatedSubmission \<Rightarrow> if ok then submission_resolved p else submission_rejected p
      | ResetAfterSuccess \<Rightarrow>
          (let p1 = p\<lparr>inputs := map (\<lambda>f. f\<lparr>field_value := defaultValue f\<rparr>) (inputs p)\<rparr>
           in p1\<lparr>submit_button := setButtonState (submit_button p1) ''default''\<rparr>)
      | DefaultAfterError \<Rightarrow> p\<lparr>submit_button := setButtonState (submit_button p) ''default''\<rparr>)"

text \<open>
  What can happen to the page: a submit event, a blur event on the \<open>i\<close>-th control, an
  input event that leaves the \<open>i\<close>-th control with a new value, time passing, and a due
  timer firing. An event that cannot happen in the state (a control that does not exist,
  a timer that is not pending or not due) leaves the state as it is.
\<close>

datatype form_event =
  Submit | Blur nat | InputValue nat jsstring | Tick nat | TimerFires nat bool

definition form_step :: "form_event \<Rightarrow> form_page \<Rightarrow> form_page" where
  "form_step e p =
     (case e of
        Submit \<Rightarrow> handleFormSubmit p
      | Blur i \<Rightarrow>
          if i < length (inputs p) then
            (case validateField (inputs p ! i) (spans p) of
               (ok, f', G') \<Rightarrow> p\<lparr>inputs := (inputs p)[i := f'], spans := G'\<rparr>)
          else p
      | InputValue i v \<Rightarrow>
          if i < length (inputs p) then
            (case clearFieldError ((inputs p ! i)\<lparr>field_value := v\<rparr>) (spans p) of
               (f', G') \<Rightarrow> p\<lparr>inputs := (inputs p)[i := f'], spans := G'\<rparr>)
          else p
      | Tick d \<Rightarrow> tick d p
      | TimerFires i ok \<Rightarrow>
          (case due_callback i p of
             None \<Rightarrow> p
           | Some cb \<Rightarrow> form_callback_run cb ok (clearTimeout i p)))"

definition form_run :: "form_event list \<Rightarrow> form_page \<Rightarrow> form_page" where
  "form_run es p = foldl (\<lambda>s e. form_step e s) p es"

section \<open>Interactions script: the button state manager\<close>

definition IDLE :: string where
  "IDLE = ''idle''"

definition LOADING :: string where
  "LOADING = ''loading''"

definition SUCCESS :: string where
  "SUCCESS = ''success''"

definition ERROR :: string where
  "ERROR = ''error''"

text \<open>\<open>Object.values(BUTTON_STATES)\<close>\<close>

definition BUTTON_STATES :: "string list" where
  "BUTTON_STATES = [IDLE, LOADING, SUCCESS, ERROR]"

definition LOADING_MIN_DURATION :: nat where
  "LOADING_MIN_DURATION = 1000"

definition SUCCESS_DISPLAY_DURATION :: nat where
  "SUCCESS_DISPLAY_DURATION = 3000"

definition ERROR_DISPLAY_DURATION :: nat where
  "ERROR_DISPLAY_DURATION = 3000"

text \<open>The \<open>options\<close> argument of \<open>setState\<close>: \<open>text\<close> and \<open>duration\<close>, each possibly absent.\<close>

record options =
  opt_text :: "jsstring option"
  opt_duration :: "nat option"

definition no_options :: options where
  "no_options = \<lparr>opt_text = None, opt_duration = None\<rparr>"

text \<open>
  The callbacks the script hands to \<open>setTimeout\<close>: the auto-reset of the success and
  error states, the timer inside \<open>simulateSubmission\<close> (whose firing settles the promise
  and resumes \<open>handleSubmit\<close>, which remembers its \<open>startTime\<close>), the timer of
  \<open>delay\<close>, the form reset after a success, and the removal of an error banner.
\<close>

datatype inter_callback =
  BackToIdle | SubmissionSettles nat | LoadingDelay | ResetForm | RemoveErrorMessage nat

text \<open>
  The page as the script sees it, with the fields of the two manager objects:
  \<open>button\<close>, \<open>currentState\<close>, \<open>originalContent\<close> and \<open>stateTimeout\<close> of the
  \<open>ButtonStateManager\<close>, \<open>isSubmitting\<close> of the \<open>FormSubmissionManager\<close>. Of the form
  it holds the controls, the \<open>.form-error-message\<close> banners (each with the identity of its
  element, first in the document first) and the custom events dispatched on it.
  \<open>state_changes\<close> is the console: the state of every \<open>Button state changed\<close> entry that
  \<open>setState\<close> logs. \<open>submissions\<close> counts the calls of \<open>simulateSubmission\<close>.
\<close>

record inter_page = "inter_callback scheduler" +
  button :: button
  currentState :: string
  originalContent :: jsstring
  stateTimeout :: "nat option"
  isSubmitting :: bool
  controls :: "field list"
  error_messages :: "(nat \<times> jsstring) list"
  created_elements :: nat
  dispatched :: "string list"
  state_changes :: "string list"
  submissions :: nat

text \<open>A line break of a template literal followed by its indentation.\<close>

definition indent :: "nat \<Rightarrow> jsstring" where
  "indent n = 10 # replicate n 32"

text \<open>The markup that the loading, success and error states assign to \<open>innerHTML\<close>.\<close>

definition btn_content :: "jsstring \<Rightarrow> jsstring \<Rightarrow> jsstring" where
  \<open>btn_content icon txt =
     indent 8 @ js ''<span class="btn-content">'' @
     indent 10 @ icon @
     indent 10 @ js ''<span class="btn-text">'' @ txt @ js ''</span>'' @
     indent 8 @ js ''</span>'' @
     indent 6\<close>

definition spinner_icon :: jsstring where
  \<open>spinner_icon = js ''<span class="btn-spinner" aria-hidden="true"></span>''\<close>

text \<open>The check mark is U+2713, the cross U+2715.\<close>

definition success_icon :: jsstring where
  \<open>success_icon =
     js ''<span class="btn-icon btn-icon-success" aria-hidden="true">'' @ [10003] @ js ''</span>''\<close>

definition error_icon :: jsstring where
  \<open>error_icon =
     js ''<span class="btn-icon btn-icon-error" aria-hidden="true">'' @ [10005] @ js ''</span>''\<close>

text \<open>\<open>options.text || fallback\<close> and \<open>options.duration || fallback\<close>.\<close>

definition text_or :: "options \<Rightarrow> jsstring \<Rightarrow> jsstring" where
  "text_or opts fallback =
     (case opt_text opts of None \<Rightarrow> fallback | Some t \<Rightarrow> if t = [] then fallback else t)"

definition duration_or :: "options \<Rightarrow> nat \<Rightarrow> nat" where
  "duration_or opts fallback =
     (case opt_duration opts of None \<Rightarrow> fallback | Some d \<Rightarrow> if d = 0 then fallback else d)"

definition setIdleState :: "inter_page \<Rightarrow> inter_page" where
  "setIdleState p =
     p\<lparr>button := (button p)
          \<lparr>disabled := False,
           attributes := (attributes (button p))
              (''aria-busy'' \<mapsto> js ''false'', ''aria-live'' \<mapsto> js ''off''),
           innerHTML :=
             (case attributes (button p) ''data-original-content'' of
                None \<Rightarrow> originalContent p
              | Some c \<Rightarrow> if c = [] then originalContent p else c)\<rparr>\<rparr>"

definition setLoadingState :: "options \<Rightarrow> inter_page \<Rightarrow> inter_page" where
  "setLoadingState opts p =
     p\<lparr>button := (button p)
          \<lparr>disabled := True,
           attributes := (attributes (button p))
              (''aria-busy'' \<mapsto> js ''true'', ''aria-live'' \<mapsto> js ''polite''),
           innerHTML := btn_content spinner_icon (text_or opts (js ''Sending...''))\<rparr>\<rparr>"

definition setSuccessState :: "options \<Rightarrow> inter_page \<Rightarrow> inter_page" where
  "setSuccessState opts p =
     (let p1 = p\<lparr>button := (button p)
                  \<lparr>disabled := True,
                   attributes := (attributes (button p))
                      (''aria-busy'' \<mapsto> js ''false'', ''aria-live'' \<mapsto> js ''polite''),
                   innerHTML := btn_content success_icon (text_or opts (js ''Message Sent!''))\<rparr>\<rparr>;
          p2 = setTimeout BackToIdle (duration_or opts SUCCESS_DISPLAY_DURATION) p1
      in p2\<lparr>stateTimeout := Some (last_timer p2)\<rparr>)"

definition setErrorState :: "options \<Rightarrow> inter_page \<Rightarrow> inter_page" where
  "setErrorState opts p =
     (let p1 = p\<lparr>button := (button p)
                  \<lparr>disabled := False,
                   attributes := (attributes (button p))
                      (''aria-busy'' \<mapsto> js ''false'', ''aria-live'' \<mapsto> js ''assertive''),
                   innerHTML := btn_content error_icon (text_or opts (js ''Failed - Try Again''))\<rparr>\<rparr>;
          p2 = setTimeout BackToIdle (duration_or opts ERROR_DISPLAY_DURATION) p1
      in p2\<lparr>stateTimeout := Some (last_timer p2)\<rparr>)"

text \<open>
  \<open>setState\<close>. The test \<open>if (this.stateTimeout)\<close> holds for a timer identifier other
  than 0. A state outside \<open>BUTTON_STATES\<close> reaches the \<open>default\<close> branch, which only logs.
\<close>

definition setState :: "string \<Rightarrow> options \<Rightarrow> inter_page \<Rightarrow> inter_page" where
  "setState state opts p =
     (let p1 = (case stateTimeout p of
                  None \<Rightarrow> p
                | Some t \<Rightarrow> if t = 0 then p else (clearTimeout t p)\<lparr>stateTimeout := None\<rparr>);
          p2 = p1\<lparr>button := (button p1)
                  \<lparr>classList := classList (button p1) - set BUTTON_STATES\<rparr>\<rparr>;
          p3 = p2\<lparr>currentState := state,
                  button := (button p2)\<lparr>classList := insert state (classList (button p2))\<rparr>\<rparr>;
          p4 = (if state = IDLE then setIdleState p3
                else if state = LOADING then setLoadingState opts p3
                else if state = SUCCESS then setSuccessState opts p3
                else if state = ERROR then setErrorState opts p3
                else p3)
      in p4\<lparr>state_changes := state_changes p4 @ [state]\<rparr>)"

definition isLoading :: "inter_page \<Rightarrow> bool" where
  "isLoading p = (currentState p = LOADING)"

text \<open>
  \<open>new ButtonStateManager(button)\<close> followed by \<open>new FormSubmissionManager(form,
  buttonManager)\<close>, as \<open>init\<close> runs them for the submit button and the controls of the
  contact form at time \<open>t\<close>; no timer of this script is pending then.
\<close>

definition ButtonStateManager :: "button \<Rightarrow> field list \<Rightarrow> nat \<Rightarrow> inter_page" where
  "ButtonStateManager b cs t =
     (let b1 = (if attributes b ''data-original-content'' = None
                then b\<lparr>attributes := (attributes b)(''data-original-content'' \<mapsto> innerHTML b)\<rparr>
                else b);
          b2 = b1\<lparr>classList := insert ''btn-morphing'' (classList b1)\<rparr>
      in setState IDLE no_options
           \<lparr>now = t, timers = [], last_timer = 0, button = b2, currentState = IDLE,
            originalContent = innerHTML b, stateTimeout = None, isSubmitting = False,
            controls = cs, error_messages = [], created_elements = 0, dispatched = [],
            state_changes = [], submissions = 0\<rparr>)"

text \<open>
  \<open>init\<close> of the interactions script: without a contact form or without a submit button
  nothing is set up.
\<close>

definition interactions_init :: "field list option \<Rightarrow> button option \<Rightarrow> nat \<Rightarrow> inter_page option" where
  "interactions_init form submitButton t =
     (case form of
        None \<Rightarrow> None
      | Some cs \<Rightarrow>
          (case submitButton of
             None \<Rightarrow> None
           | Some b \<Rightarrow> Some (ButtonStateManager b cs t)))"

section \<open>Interactions script: submitting the form\<close>

text \<open>
  \<open>simulateSubmission\<close>: \<open>jitter\<close> is the whole milliseconds of
  \<open>Math.random() * 2000\<close>, so the timer runs for 1000 to 2999 milliseconds.
\<close>

definition simulateSubmission :: "nat \<Rightarrow> nat \<Rightarrow> inter_page \<Rightarrow> inter_page" where
  "simulateSubmission jitter startTime p =
     setTimeout (SubmissionSettles startTime) (1000 + jitter) (p\<lparr>submissions := Suc (submissions p)\<rparr>)"

text \<open>\<open>handleSubmit\<close> up to its first \<open>await\<close>.\<close>

definition handleSubmit :: "nat \<Rightarrow> inter_page \<Rightarrow> inter_page" where
  "handleSubmit jitter p =
     (if isSubmitting p \<or> isLoading p then p
      else
        (let p1 = p\<lparr>isSubmitting := True\<rparr>;
             p2 = setState LOADING \<lparr>opt_text = Some (js ''Sending...''), opt_duration = None\<rparr> p1
         in simulateSubmission jitter (now p2) p2))"

definition dispatchEvent :: "string \<Rightarrow> inter_page \<Rightarrow> inter_page" where
  "dispatchEvent name p = p\<lparr>dispatched := dispatched p @ [name]\<rparr>"

definition clearFormErrors :: "inter_page \<Rightarrow> inter_page" where
  "clearFormErrors p = p\<lparr>error_messages := []\<rparr>"

text \<open>\<open>FormSubmissionManager.showFormError\<close>\<close>

definition showFormErrorMessage :: "jsstring \<Rightarrow> inter_page \<Rightarrow> inter_page" where
  "showFormErrorMessage msg p =
     setTimeout (RemoveErrorMessage (created_elements p)) ERROR_DISPLAY_DURATION
       (p\<lparr>error_messages := (created_elements p, msg) # drop 1 (error_messages p),
          created_elements := Suc (created_elements p)\<rparr>)"

definition handleSuccess :: "inter_page \<Rightarrow> inter_page" where
  "handleSuccess p =
     dispatchEvent ''formSubmitSuccess''
       (setTimeout ResetForm SUCCESS_DISPLAY_DURATION
          (setState SUCCESS
             \<lparr>opt_text = Some (js ''Message Sent!''),
              opt_duration = Some SUCCESS_DISPLAY_DURATION\<rparr> p))"

text \<open>\<open>handleError\<close>, given \<open>error.message\<close>.\<close>

definition handleError :: "jsstring \<Rightarrow> inter_page \<Rightarrow> inter_page" where
  "handleError msg p =
     (let errorMessage = (if msg = [] then js ''Submission failed'' else msg) in
      dispatchEvent ''formSubmitError''
        (showFormErrorMessage errorMessage
           (setState ERROR
              \<lparr>opt_text = Some (js ''Failed - Try Again''),
               opt_duration = Some ERROR_DISPLAY_DURATION\<rparr> p)))"

text \<open>The \<open>finally\<close> block of \<open>handleSubmit\<close>.\<close>

definition submission_finally :: "inter_page \<Rightarrow> inter_page" where
  "submission_finally p = p\<lparr>isSubmitting := False\<rparr>"

text \<open>
  Running a timer callback. For the timer of \<open>simulateSubmission\<close>, \<open>ok\<close> is the outcome
  of \<open>Math.random() > 0.15\<close>: the promise resolves with \<open>success: true\<close> and
  \<open>handleSubmit\<close> goes on (waiting first when less than the minimum loading time has
  passed), or it rejects and \<open>handleSubmit\<close> goes to its \<open>catch\<close>.
\<close>

definition inter_callback_run :: "inter_callback \<Rightarrow> bool \<Rightarrow> inter_page \<Rightarrow> inter_page" where
  "inter_callback_run cb ok p =
     (case cb of
        BackToIdle \<Rightarrow> setState IDLE no_options p
      | SubmissionSettles startTime \<Rightarrow>
          if ok then
            (let elapsed = now p - startTime in
             if elapsed < LOADING_MIN_DURATION
             then setTimeout LoadingDelay (LOADING_MIN_DURATION - elapsed) p
             else submission_finally (handleSuccess p))
          else submission_finally
                 (handleError (js ''Network error: Unable to reach server'') p)
      | LoadingDelay \<Rightarrow> submission_finally (handleSuccess p)
      | ResetForm \<Rightarrow>
          clearFormErrors
            (p\<lparr>controls := map (\<lambda>f. f\<lparr>field_value := defaultValue f\<rparr>) (controls p)\<rparr>)
      | RemoveErrorMessage k \<Rightarrow>
          p\<lparr>error_messages := filter (\<lambda>m. fst m \<noteq> k) (error_messages p)\<rparr>)"

text \<open>
  What can happen to the page: a submit event (with the \<open>jitter\<close> that
  \<open>simulateSubmission\<close> would draw), time passing, and a due timer firing.
\<close>

datatype inter_event = SubmitForm nat | Wait nat | Timeout nat bool

definition inter_step :: "inter_event \<Rightarrow> inter_page \<Rightarrow> inter_page" where
  "inter_step e p =
     (case e of
        SubmitForm jitter \<Rightarrow> if jitter < 2000 then handleSubmit jitter p else p
      | Wait d \<Rightarrow> tick d p
      | Timeout i ok \<Rightarrow>
          (case due_callback i p of
             None \<Rightarrow> p
           | Some cb \<Rightarrow> inter_callback_run cb ok (clearTimeout i p)))"

definition inter_run :: "inter_event list \<Rightarrow> inter_page \<Rightarrow> inter_page" where
  "inter_run es p = foldl (\<lambda>s e. inter_step e s) p es"

section \<open>Reveal animations: elements, the opt-out, and delays\<close>

text \<open>
  An element that may be animated: class list and attributes, and its inline style. The
  page as the two animation scripts see it: the \<open>data-no-animations\<close> attribute of the
  body, the answer of the \<open>prefers-reduced-motion: reduce\<close> media query, and the elements
  in document order.
\<close>

record reveal_element = element +
  style :: "string \<rightharpoonup> string"

record 'cb animated_page = "'cb scheduler" +
  data_no_animations :: bool
  prefers_reduced_motion :: bool
  page_elements :: "reveal_element list"

definition shouldDisableAnimations :: "('cb, 'm) animated_page_scheme \<Rightarrow> bool" where
  "shouldDisableAnimations p = (data_no_animations p \<or> prefers_reduced_motion p)"

text \<open>
  \<open>document.querySelectorAll\<close> for a list of class selectors: the positions of the
  elements that carry one of the classes, in document order.
\<close>

definition querySelectorAll :: "string list \<Rightarrow> reveal_element list \<Rightarrow> nat list" where
  "querySelectorAll classes es =
     filter (\<lambda>k. \<exists>c \<in> set classes. c \<in> classList (es ! k)) [0..<length es]"

definition isDigit :: "nat \<Rightarrow> bool" where
  "isDigit c = (48 \<le> c \<and> c \<le> 57)"

text \<open>
  \<open>parseInt(s, 10)\<close>: leading white space is skipped, a sign is read, then the longest
  run of decimal digits; \<open>None\<close> is \<open>NaN\<close>.
\<close>

definition parseInt :: "jsstring \<Rightarrow> int option" where
  "parseInt s =
     (let t = dropWhile isWhiteSpace s;
          negative = (t \<noteq> [] \<and> hd t = 45);
          u = (if t \<noteq> [] \<and> (hd t = 45 \<or> hd t = 43) then drop 1 t else t);
          ds = takeWhile isDigit u
      in if ds = [] then None
         else Some ((if negative then - 1 else 1) *
                    int (foldl (\<lambda>a c. 10 * a + (c - 48)) 0 ds)))"

text \<open>
  The delay of \<open>parseInt(element.getAttribute('data-animation-delay') || '0', 10)\<close> as
  \<open>setTimeout\<close> takes it: \<open>NaN\<close> and negative numbers count as 0.
\<close>

definition animation_delay :: "reveal_element \<Rightarrow> nat" where
  "animation_delay e =
     (let a = (case attributes e ''data-animation-delay'' of
                 None \<Rightarrow> js ''0''
               | Some v \<Rightarrow> if v = [] then js ''0'' else v)
      in case parseInt a of None \<Rightarrow> 0 | Some z \<Rightarrow> nat z)"

section \<open>Main script: scroll-triggered animations\<close>

definition ANIMATION_STAGGER :: nat where
  "ANIMATION_STAGGER = 100"

definition ANIMATED_ELEMENTS :: "string list" where
  "ANIMATED_ELEMENTS = [''course-card'', ''testimonial-card'', ''stat-item'', ''trust-badge'']"

datatype scroll_callback = RevealElement nat

text \<open>\<open>observed\<close> holds the targets of the script's one \<open>IntersectionObserver\<close>.\<close>

record scroll_page = "scroll_callback animated_page" +
  observed :: "nat set"

text \<open>The body of the \<open>forEach\<close> of \<open>initScrollAnimations\<close>, but for \<open>observe\<close>.\<close>

definition hide_element :: "nat \<Rightarrow> reveal_element \<Rightarrow> reveal_element" where
  "hide_element index e =
     e\<lparr>style := (style e)
          (''opacity'' \<mapsto> ''0'', ''transform'' \<mapsto> ''translateY(20px)'',
           ''transition'' \<mapsto> ''opacity 0.6s ease, transform 0.6s ease''),
       attributes := (attributes e)
          (''data-animation-delay'' \<mapsto> decimal (index * ANIMATION_STAGGER))\<rparr>"

fun hide_each :: "nat list \<Rightarrow> nat \<Rightarrow> reveal_element list \<Rightarrow> reveal_element list" where
  "hide_each [] index es = es"
| "hide_each (k # ks) index es = hide_each ks (Suc index) (es[k := hide_element index (es ! k)])"

definition initScrollAnimations :: "scroll_page \<Rightarrow> scroll_page" where
  "initScrollAnimations p =
     (if shouldDisableAnimations p then p
      else
        (let elements = querySelectorAll ANIMATED_ELEMENTS (page_elements p) in
         if length elements = 0 then p
         else p\<lparr>page_elements := hide_each elements 0 (page_elements p),
                observed := set elements\<rparr>))"

text \<open>
  The callback of the observer; an entry is a target and its \<open>isIntersecting\<close>. The last
  statement of the source, \<open>entry.target.observer?.unobserve?.(element)\<close>, reads the
  property \<open>observer\<close> of the element. Elements have no such property and no script of the
  page defines one, so the optional chain stops at \<open>undefined\<close> and nothing is called.
\<close>

fun handleIntersection :: "(nat \<times> bool) list \<Rightarrow> scroll_page \<Rightarrow> scroll_page" where
  "handleIntersection [] p = p"
| "handleIntersection ((target, isIntersecting) # entries) p =
     handleIntersection entries
       (if isIntersecting
        then setTimeout (RevealElement target) (animation_delay (page_elements p ! target)) p
        else p)"

definition scroll_callback_run :: "scroll_callback \<Rightarrow> scroll_page \<Rightarrow> scroll_page" where
  "scroll_callback_run cb p =
     (case cb of
        RevealElement k \<Rightarrow>
          p\<lparr>page_elements := (page_elements p)
               [k := (page_elements p ! k)
                  \<lparr>style := (style (page_elements p ! k))
                     (''opacity'' \<mapsto> ''1'', ''transform'' \<mapsto> ''translateY(0)'')\<rparr>]\<rparr>)"

text \<open>
  What can happen after initialisation: the observer reports entries (the browser reports
  observed targets only), time passes, a due timer fires.
\<close>

datatype scroll_event = Notified "(nat \<times> bool) list" | Elapsed nat | Fired nat

definition scroll_step :: "scroll_event \<Rightarrow> scroll_page \<Rightarrow> scroll_page" where
  "scroll_step e p =
     (case e of
        Notified entries \<Rightarrow> handleIntersection (filter (\<lambda>en. fst en \<in> observed p) entries) p
      | Elapsed d \<Rightarrow> tick d p
      | Fired i \<Rightarrow>
          (case due_callback i p of
             None \<Rightarrow> p
           | Some cb \<Rightarrow> scroll_callback_run cb (clearTimeout i p)))"

definition scroll_run :: "scroll_event list \<Rightarrow> scroll_page \<Rightarrow> scroll_page" where
  "scroll_run es p = foldl (\<lambda>s e. scroll_step e s) p es"

section \<open>Animations script\<close>

definition STAGGER_DELAY :: nat where
  "STAGGER_DELAY = 150"

text \<open>A reveal timer remembers its element and the observer whose callback set it.\<close>

datatype reveal_callback = AnimateElement nat nat

text \<open>
  \<open>watchers\<close> holds the targets of every \<open>IntersectionObserver\<close> the script has
  created, \<open>observers\<close> the positions of those in \<open>animationState.observers\<close>;
  \<open>animatedElements\<close> and \<open>isInitialized\<close> are the other two fields of
  \<open>animationState\<close>.
\<close>

record reveal_page = "reveal_callback animated_page" +
  watchers :: "nat set list"
  observers :: "nat list"
  animatedElements :: "nat set"
  isInitialized :: bool

definition createObserver :: "reveal_page \<Rightarrow> reveal_page" where
  "createObserver p =
     p\<lparr>watchers := watchers p @ [{}], observers := observers p @ [length (watchers p)]\<rparr>"

definition observe :: "nat \<Rightarrow> nat \<Rightarrow> reveal_page \<Rightarrow> reveal_page" where
  "observe w k p = p\<lparr>watchers := (watchers p)[w := insert k (watchers p ! w)]\<rparr>"

definition unobserve :: "nat \<Rightarrow> nat \<Rightarrow> reveal_page \<Rightarrow> reveal_page" where
  "unobserve w k p = p\<lparr>watchers := (watchers p)[w := watchers p ! w - {k}]\<rparr>"

definition prepareElement :: "nat \<Rightarrow> string \<Rightarrow> nat \<Rightarrow> reveal_page \<Rightarrow> reveal_page" where
  "prepareElement k animationClass index p =
     p\<lparr>page_elements := (page_elements p)
          [k := (page_elements p ! k)
             \<lparr>classList := insert animationClass (classList (page_elements p ! k)),
              attributes := (attributes (page_elements p ! k))
                 (''data-animation-delay'' \<mapsto> decimal (index * STAGGER_DELAY))\<rparr>]\<rparr>"

fun prepare_each :: "nat list \<Rightarrow> string \<Rightarrow> nat \<Rightarrow> reveal_page \<Rightarrow> reveal_page" where
  "prepare_each [] animationClass index p = p"
| "prepare_each (k # ks) animationClass index p =
     prepare_each ks animationClass (Suc index) (prepareElement k animationClass index p)"

definition prepareElements :: "nat list \<Rightarrow> string \<Rightarrow> reveal_page \<Rightarrow> reveal_page" where
  "prepareElements ks animationClass p =
     (if length ks = 0 then p else prepare_each ks animationClass 0 p)"

text \<open>
  The five initialisers that animate every match of a selector (course cards, testimonial
  cards, stat items, trust badges, section headers) differ in the selector and the class.
\<close>

definition init_group :: "string \<Rightarrow> string \<Rightarrow> reveal_page \<Rightarrow> reveal_page" where
  "init_group selector animationClass p =
     (let ks = querySelectorAll [selector] (page_elements p) in
      if length ks = 0 then p
      else
        (let p1 = createObserver (prepareElements ks animationClass p);
             w = length (watchers p1) - 1
         in fold (observe w) ks p1))"

text \<open>The initialisers that animate the first match of a selector, with a given index.\<close>

definition init_single :: "string \<Rightarrow> string \<Rightarrow> nat \<Rightarrow> reveal_page \<Rightarrow> reveal_page" where
  "init_single selector animationClass index p =
     (case querySelectorAll [selector] (page_elements p) of
        [] \<Rightarrow> p
      | k # ks \<Rightarrow>
          (let p1 = createObserver (prepareElement k animationClass index p);
               w = length (watchers p1) - 1
           in observe w k p1))"

definition initAboutSectionAnimations :: "reveal_page \<Rightarrow> reveal_page" where
  "initAboutSectionAnimations p =
     init_single ''about-features'' ''reveal-right'' 1
       (init_single ''about-text'' ''reveal-left'' 0 p)"

definition initContactSectionAnimations :: "reveal_page \<Rightarrow> reveal_page" where
  "initContactSectionAnimations p = init_single ''contact-info'' ''reveal-right'' 0 p"

definition animations_init :: "reveal_page \<Rightarrow> reveal_page" where
  "animations_init p =
     (if isInitialized p then p
      else if shouldDisableAnimations p then p
      else
        (initContactSectionAnimations
          (initAboutSectionAnimations
            (init_group ''section-header'' ''reveal''
              (init_group ''trust-badge'' ''reveal''
                (init_group ''stat-item'' ''reveal''
                  (init_group ''testimonial-card'' ''reveal-scale''
                    (init_group ''course-card'' ''reveal'' p)))))))
          \<lparr>isInitialized := True\<rparr>)"

text \<open>\<open>cleanup\<close> disconnects the observers of \<open>animationState.observers\<close>.\<close>

definition cleanup :: "reveal_page \<Rightarrow> reveal_page" where
  "cleanup p =
     p\<lparr>watchers := map (\<lambda>w. if w \<in> set (observers p) then {} else watchers p ! w)
                      [0..<length (watchers p)],
       observers := [], isInitialized := False\<rparr>"

definition handleMotionPreferenceChange :: "reveal_page \<Rightarrow> reveal_page" where
  "handleMotionPreferenceChange p =
     (let shouldDisable = shouldDisableAnimations p in
      if shouldDisable \<and> isInitialized p then cleanup p
      else if \<not> shouldDisable \<and> \<not> isInitialized p then animations_init p
      else p)"

definition isAnimated :: "nat \<Rightarrow> reveal_page \<Rightarrow> bool" where
  "isAnimated k p = (k \<in> animatedElements p)"

definition markAsAnimated :: "nat \<Rightarrow> reveal_page \<Rightarrow> reveal_page" where
  "markAsAnimated k p = p\<lparr>animatedElements := insert k (animatedElements p)\<rparr>"

definition animateElement :: "nat \<Rightarrow> reveal_page \<Rightarrow> reveal_page" where
  "animateElement k p =
     p\<lparr>page_elements := (page_elements p)
          [k := (page_elements p ! k)
             \<lparr>classList := insert ''active'' (classList (page_elements p ! k))\<rparr>]\<rparr>"

text \<open>The callback of observer \<open>w\<close>.\<close>

fun handleIntersection_anim :: "(nat \<times> bool) list \<Rightarrow> nat \<Rightarrow> reveal_page \<Rightarrow> reveal_page" where
  "handleIntersection_anim [] w p = p"
| "handleIntersection_anim ((target, isIntersecting) # entries) w p =
     handleIntersection_anim entries w
       (if isIntersecting \<and> \<not> isAnimated target p
        then setTimeout (AnimateElement target w) (animation_delay (page_elements p ! target)) p
        else p)"

definition reveal_callback_run :: "reveal_callback \<Rightarrow> reveal_page \<Rightarrow> reveal_page" where
  "reveal_callback_run cb p =
     (case cb of
        AnimateElement k w \<Rightarrow> unobserve w k (markAsAnimated k (animateElement k p)))"

text \<open>
  What can happen to the page: the document is ready, an observer reports entries for
  targets it observes, the reduced-motion preference changes, time passes, a due timer
  fires, the page is unloaded.
\<close>

datatype reveal_event =
  DOMContentLoaded | Intersections nat "(nat \<times> bool) list" | MotionPreference bool
  | Passed nat | TimerFired nat | BeforeUnload

definition reveal_step :: "reveal_event \<Rightarrow> reveal_page \<Rightarrow> reveal_page" where
  "reveal_step e p =
     (case e of
        DOMContentLoaded \<Rightarrow> animations_init p
      | Intersections w entries \<Rightarrow>
          if w < length (watchers p)
          then handleIntersection_anim (filter (\<lambda>en. fst en \<in> watchers p ! w) entries) w p
          else p
      | MotionPreference b \<Rightarrow> handleMotionPreferenceChange (p\<lparr>prefers_reduced_motion := b\<rparr>)
      | Passed d \<Rightarrow> tick d p
      | TimerFired i \<Rightarrow>
          (case due_callback i p of
             None \<Rightarrow> p
           | Some cb \<Rightarrow> reveal_callback_run cb (clearTimeout i p))
      | BeforeUnload \<Rightarrow> cleanup p)"

definition reveal_run :: "reveal_event list \<Rightarrow> reveal_page \<Rightarrow> reveal_page" where
  "reveal_run es p = foldl (\<lambda>s e. reveal_step e s) p es"

section \<open>Main script: smooth scroll navigation\<close>

definition SCROLL_OFFSET :: int where
  "SCROLL_OFFSET = 80"

text \<open>
  An element that an anchor may target: its \<open>id\<close> (empty when it has none), the top of its
  bounding rectangle in pixels, and its \<open>tabindex\<close> attribute.
\<close>

record target_element =
  element_id :: jsstring
  rect_top :: int
  tabindex :: "jsstring option"

text \<open>
  The page as the click handler sees it: the elements in document order, the scroll
  offset, the scroll requests made so far (\<open>top\<close> of each \<open>window.scrollTo\<close>), whether
  \<open>history.pushState\<close> exists, the URLs pushed so far, the element holding focus, and the
  console (level and message of each entry).
\<close>

record nav_page =
  elements :: "target_element list"
  pageYOffset :: int
  scroll_requests :: "int list"
  has_pushState :: bool
  pushed_urls :: "jsstring list"
  focused :: "nat option"
  console :: "(string \<times> string) list"

definition log :: "string \<Rightarrow> string \<Rightarrow> nav_page \<Rightarrow> nav_page" where
  "log level msg p = p\<lparr>console := console p @ [(level, msg)]\<rparr>"

text \<open>
  \<open>document.getElementById\<close>: the first element in document order with that id; no
  element has the empty id.
\<close>

definition getElementById :: "jsstring \<Rightarrow> target_element list \<Rightarrow> nat option" where
  "getElementById i es =
     (if i = [] then None else find (\<lambda>k. element_id (es ! k) = i) [0..<length es])"

text \<open>
  The click handler, given the \<open>href\<close> attribute of the clicked link (\<open>None\<close> when the
  attribute is absent). The first component of the result tells whether
  \<open>event.preventDefault\<close> was called.
\<close>

definition handleSmoothScroll :: "jsstring option \<Rightarrow> nav_page \<Rightarrow> bool \<times> nav_page" where
  "handleSmoothScroll href p =
     (case href of
        None \<Rightarrow> (False, p)
      | Some [] \<Rightarrow> (False, p)
      | Some (c # targetId) \<Rightarrow>
          if c \<noteq> 35 then (False, p)
          else
            (case getElementById targetId (elements p) of
               None \<Rightarrow> (True, log ''warn'' ''Smooth scroll target not found'' p)
             | Some k \<Rightarrow>
                 (let targetPosition = rect_top (elements p ! k) + pageYOffset p;
                      offsetPosition = targetPosition - SCROLL_OFFSET;
                      p1 = p\<lparr>scroll_requests := scroll_requests p @ [offsetPosition]\<rparr>;
                      p2 = (if has_pushState p1
                            then p1\<lparr>pushed_urls := pushed_urls p1 @ [c # targetId]\<rparr> else p1);
                      p3 = p2\<lparr>elements := (elements p2)
                                    [k := (elements p2 ! k)\<lparr>tabindex := Some (js ''-1'')\<rparr>],
                              focused := Some k\<rparr>
                  in (True, log ''info'' ''Smooth scroll executed'' p3))))"

section \<open>Auxiliary notions and example pages\<close>

text \<open>
  What the specification calls a value violating a rule: the required constraint (an empty
  value for a required field), or, for a non-empty value, the minimum length or the pattern.
\<close>

definition violates :: "rule \<Rightarrow> jsstring \<Rightarrow> bool" where
  "violates r v =
     ((required r \<and> v = []) \<or>
      (v \<noteq> [] \<and>
        ((case minLength r of None \<Rightarrow> False | Some n \<Rightarrow> length v < n) \<or>
         (case pattern r of None \<Rightarrow> False | Some p \<Rightarrow> \<not> rx_test p v))))"

text \<open>The verdict of \<open>validateField\<close>, which does not depend on the error elements.\<close>

definition field_ok :: "field \<Rightarrow> bool" where
  "field_ok f = fst (validateField f (\<lambda>g. []))"

text \<open>What \<open>clearAllErrors\<close> does to one control.\<close>

definition clear_error_class :: "field \<Rightarrow> field" where
  "clear_error_class f =
     (if class_error f then f\<lparr>class_error := False, aria_invalid := None\<rparr> else f)"

text \<open>
  A contact form as the markup would have it: name, email and message carry the HTML
  \<open>required\<close> attribute, phone does not; each control sits in a form group of its own.
\<close>

definition example_field :: "string \<Rightarrow> string \<Rightarrow> tag \<Rightarrow> bool \<Rightarrow> nat \<Rightarrow> field" where
  "example_field n v t req g =
     \<lparr>field_name = js n, field_value = js v, defaultValue = [], field_tag = t,
      has_required = req, label_text = None, form_group = Some g, class_error = False,
      aria_invalid = None\<rparr>"

definition example_button :: text_button where
  "example_button =
     \<lparr>classList = {''btn-primary''}, attributes = Map.empty, disabled = False,
      innerHTML = js ''Send Message'', textContent = js ''Send Message''\<rparr>"

definition example_form :: "string \<Rightarrow> string \<Rightarrow> form_page" where
  "example_form name phone =
     \<lparr>now = 0, timers = [], last_timer = 0,
      inputs = [example_field ''name'' name Input True 0,
                example_field ''email'' ''a@b.co'' Input True 1,
                example_field ''phone'' phone Input False 2,
                example_field ''message'' ''Hi there!!'' Textarea True 3],
      spans = (\<lambda>g. []), form_errors = [], submit_button = Some example_button,
      sim_calls = 0\<rparr>"

text \<open>
  The timers that stand for a submission in flight: \<open>handleSubmit\<close> is suspended at one
  of its two \<open>await\<close>s.
\<close>

definition in_flight :: "inter_callback \<Rightarrow> bool" where
  "in_flight cb = (case cb of SubmissionSettles s \<Rightarrow> True | LoadingDelay \<Rightarrow> True | _ \<Rightarrow> False)"

text \<open>
  The state changes of the button that the interactions script can make: a submission
  enters loading from any state but loading; loading is left for success or error; success
  and error go back to idle.
\<close>

definition allowed_next :: "string \<Rightarrow> string \<Rightarrow> bool" where
  "allowed_next a b =
     ((a, b) \<in> {(IDLE, LOADING), (SUCCESS, LOADING), (ERROR, LOADING),
                 (LOADING, SUCCESS), (LOADING, ERROR), (SUCCESS, IDLE), (ERROR, IDLE)})"

text \<open>The pending timers once \<open>setState\<close> has cleared \<open>stateTimeout\<close>.\<close>

definition cleared :: "inter_page \<Rightarrow> (nat \<times> nat \<times> inter_callback) list" where
  "cleared p =
     (case stateTimeout p of
        None \<Rightarrow> timers p
      | Some t \<Rightarrow> if t = 0 then timers p else filter (\<lambda>x. fst x \<noteq> t) (timers p))"

text \<open>The same on a list of timers.\<close>

definition cancelled :: "nat option \<Rightarrow> (nat \<times> nat \<times> inter_callback) list \<Rightarrow> (nat \<times> nat \<times> inter_callback) list" where
  "cancelled sto T = (case sto of None \<Rightarrow> T | Some t \<Rightarrow> if t = 0 then T else filter (\<lambda>x. fst x \<noteq> t) T)"

text \<open>
  The invariant of the interactions script, on the state changes logged so far, the current
  state, the pending timers, the number of simulated submissions, \<open>isSubmitting\<close>,
  \<open>stateTimeout\<close> and the last timer identifier: the log ends in the current state and
  only makes allowed changes; loading was entered once per submission; a submission is in
  flight only in the loading state, and one at most; a pending reset timer is the one in
  \<open>stateTimeout\<close> and is pending only in the success and error states.
\<close>

definition button_inv :: "string list \<Rightarrow> string \<Rightarrow> (nat \<times> nat \<times> inter_callback) list \<Rightarrow> nat \<Rightarrow> bool
    \<Rightarrow> nat option \<Rightarrow> nat \<Rightarrow> bool" where
  "button_inv cs st T sub isub sto lt =
     (cs \<noteq> [] \<and> last cs = st
      \<and> st \<in> set BUTTON_STATES
      \<and> successively allowed_next cs
      \<and> count_list cs LOADING = sub
      \<and> isub = (st = LOADING)
      \<and> (\<forall>x \<in> set T. in_flight (snd (snd x)) \<longrightarrow> st = LOADING)
      \<and> (\<forall>x \<in> set T. \<forall>y \<in> set T.
            in_flight (snd (snd x)) \<longrightarrow> in_flight (snd (snd y)) \<longrightarrow> fst x = fst y)
      \<and> (\<forall>x \<in> set T. snd (snd x) = BackToIdle \<longrightarrow>
            sto = Some (fst x) \<and> (st = SUCCESS \<or> st = ERROR))
      \<and> (\<forall>x \<in> set T. sto = Some (fst x) \<longrightarrow> snd (snd x) = BackToIdle)
      \<and> sto \<noteq> Some 0
      \<and> (\<forall>x \<in> set T. 0 < fst x \<and> fst x \<le> lt)
      \<and> (\<forall>t. sto = Some t \<longrightarrow> t \<le> lt))"

definition inter_inv :: "inter_page \<Rightarrow> bool" where
  "inter_inv p =
     button_inv (state_changes p) (currentState p) (timers p) (submissions p) (isSubmitting p)
       (stateTimeout p) (last_timer p)"

text \<open>
  What the reachable states satisfy besides: timer identifiers are distinct, and in the
  loading state a simulated call (or the wait for the minimum loading time) is pending.
\<close>

definition flight_inv :: "string \<Rightarrow> (nat \<times> nat \<times> inter_callback) list \<Rightarrow> bool" where
  "flight_inv st T =
     (distinct (map fst T) \<and> (st = LOADING \<longrightarrow> (\<exists>x \<in> set T. in_flight (snd (snd x)))))"

definition reachable_inv :: "inter_page \<Rightarrow> bool" where
  "reachable_inv p = (inter_inv p \<and> flight_inv (currentState p) (timers p))"

text \<open>The submit button as the markup has it, and one that already carries the attribute.\<close>

definition example_submit_button :: button where
  "example_submit_button =
     \<lparr>classList = {''btn-primary''}, attributes = Map.empty, disabled = False,
      innerHTML = js ''Send Message''\<rparr>"

definition example_marked_button :: button where
  "example_marked_button =
     \<lparr>classList = {''btn-primary''},
      attributes = [''data-original-content'' \<mapsto> js ''Submit''], disabled = False,
      innerHTML = js ''Send Message''\<rparr>"

text \<open>
  The content that \<open>setIdleState\<close> puts back: the \<open>data-original-content\<close> attribute
  when the button had a non-empty one before the manager was constructed, else the inner
  content captured at construction.
\<close>

definition restored_content :: "button \<Rightarrow> jsstring" where
  "restored_content b =
     (case attributes b ''data-original-content'' of
        None \<Rightarrow> innerHTML b
      | Some c \<Rightarrow> if c = [] then innerHTML b else c)"

text \<open>The two places the manager keeps the original content in.\<close>

definition stored_content :: "inter_page \<Rightarrow> jsstring \<times> jsstring option" where
  "stored_content p = (originalContent p, attributes (button p) ''data-original-content'')"

text \<open>The page before the animations script has done anything.\<close>

definition fresh :: "reveal_page \<Rightarrow> bool" where
  "fresh p = (watchers p = [] \<and> timers p = [] \<and> \<not> isInitialized p)"

text \<open>
  The opt-out stays active through a list of events: the body carries
  \<open>data-no-animations\<close>, or the reduced-motion preference is never withdrawn.
\<close>

definition keeps_opt_out :: "reveal_page \<Rightarrow> reveal_event list \<Rightarrow> bool" where
  "keeps_opt_out p es = (data_no_animations p \<or> MotionPreference False \<notin> set es)"

text \<open>A page with three course cards, with or without the reduced-motion preference.\<close>

definition example_card :: reveal_element where
  "example_card = \<lparr>classList = {''course-card''}, attributes = Map.empty, style = Map.empty\<rparr>"

definition example_scroll_page :: "bool \<Rightarrow> scroll_page" where
  "example_scroll_page reduce =
     \<lparr>now = 0, timers = [], last_timer = 0, data_no_animations = False,
      prefers_reduced_motion = reduce,
      page_elements = [example_card, example_card, example_card], observed = {}\<rparr>"

definition example_reveal_page :: "bool \<Rightarrow> reveal_page" where
  "example_reveal_page reduce =
     \<lparr>now = 0, timers = [], last_timer = 0, data_no_animations = False,
      prefers_reduced_motion = reduce,
      page_elements = [example_card, example_card, example_card], watchers = [],
      observers = [], animatedElements = {}, isInitialized = False\<rparr>"

text \<open>The state the animations script stays in while the opt-out is active.\<close>

definition dormant :: "reveal_page \<Rightarrow> reveal_element list \<Rightarrow> bool" where
  "dormant p es =
     (shouldDisableAnimations p \<and> watchers p = [] \<and> timers p = [] \<and> \<not> isInitialized p
      \<and> page_elements p = es)"

text \<open>A page with two sections that links may target.\<close>

definition example_nav_page :: nav_page where
  "example_nav_page =
     \<lparr>elements = [\<lparr>element_id = js ''courses'', rect_top = 640, tabindex = None\<rparr>,
                  \<lparr>element_id = js ''contact'', rect_top = 1800, tabindex = None\<rparr>],
      pageYOffset = 0, scroll_requests = [], has_pushState = True, pushed_urls = [],
      focused = None, console = []\<rparr>"

section \<open>Properties of field validation\<close>

lemma decimal_values:
  "decimal 0 = [48]" "decimal 2 = [50]" "decimal 10 = [49, 48]"
  "decimal 100 = [49, 48, 48]" "decimal 150 = [49, 53, 48]" "decimal 200 = [50, 48, 48]"
  "decimal 300 = [51, 48, 48]"
  by (simp_all add: decimal.simps)



lemma length_trim_le: "length (trim v) \<le> length v"
proof -
  have "length (dropWhile isWhiteSpace (rev (dropWhile isWhiteSpace v)))
          \<le> length (rev (dropWhile isWhiteSpace v))"
    by (rule length_dropWhile_le)
  also have "\<dots> \<le> length v"
    by (simp add: length_dropWhile_le)
  finally show ?thesis
    by (simp add: trim_def)
qed







lemma validateField_result: "fst (validateField f G) = field_ok f"
  by (simp add: field_ok_def validateField_def Let_def split: option.splits)

lemma field_ok_cong:
  "field_name f = field_name f' \<Longrightarrow> field_value f = field_value f' \<Longrightarrow> field_ok f = field_ok f'"
  by (simp add: field_ok_def validateField_def Let_def split: option.splits)

lemma name_rule:
  "VALIDATION_RULES (js ''name'') =
     Some \<lparr>required = True, minLength = Some 2, pattern = Some name_pattern,
       message = js ''Please enter a valid name (letters, spaces, hyphens, and apostrophes only)''\<rparr>"
  by (simp add: VALIDATION_RULES_def)

lemma email_rule:
  "VALIDATION_RULES (js ''email'') =
     Some \<lparr>required = True, minLength = None, pattern = Some email_pattern,
       message = js ''Please enter a valid email address''\<rparr>"
  by (simp add: VALIDATION_RULES_def js_def)


lemma message_rule:
  "VALIDATION_RULES (js ''message'') =
     Some \<lparr>required = True, minLength = Some 10, pattern = None,
       message = js ''Please enter a message (at least 10 characters)''\<rparr>"
  by (simp add: VALIDATION_RULES_def js_def)

lemma name_A_fails:
  "validateField (f\<lparr>field_name := js ''name'', field_value := js ''A'', form_group := Some g\<rparr>) G =
     (False,
      f\<lparr>field_name := js ''name'', field_value := js ''A'', form_group := Some g,
        class_error := True, aria_invalid := Some (js ''true'')\<rparr>,
      G(g := drop 1 (G g) @ [js ''Must be at least 2 characters'']))"
  by (simp add: validateField_def name_rule)
     (simp add: js_def trim_def isWhiteSpace_def showFieldError_def decimal_values)

lemma name_A_verdict:
  "\<not> fst (validateField (f\<lparr>field_name := js ''name'', field_value := js ''A''\<rparr>) G)"
  by (simp add: validateField_def name_rule) (simp add: js_def trim_def isWhiteSpace_def)

lemma name_Jane_Doe_passes:
  "fst (validateField (f\<lparr>field_name := js ''name'', field_value := js ''Jane Doe''\<rparr>) G)"
  by (simp add: validateField_def name_rule name_pattern_def)
     (simp add: js_def trim_def isWhiteSpace_def name_class_def)

lemma email_x_fails:
  "validateField (f\<lparr>field_name := js ''email'', field_value := js ''x'', form_group := Some g\<rparr>) G =
     (False,
      f\<lparr>field_name := js ''email'', field_value := js ''x'', form_group := Some g,
        class_error := True, aria_invalid := Some (js ''true'')\<rparr>,
      G(g := drop 1 (G g) @ [js ''Please enter a valid email address'']))"
  by (simp add: validateField_def email_rule email_pattern_def)
     (simp add: js_def trim_def isWhiteSpace_def email_class_def showFieldError_def)

lemma email_x_verdict:
  "\<not> fst (validateField (f\<lparr>field_name := js ''email'', field_value := js ''x''\<rparr>) G)"
  by (simp add: validateField_def email_rule email_pattern_def)
     (simp add: js_def trim_def isWhiteSpace_def email_class_def)

lemma email_a_b_co_passes:
  "fst (validateField (f\<lparr>field_name := js ''email'', field_value := js ''a@b.co''\<rparr>) G)"
  by (simp add: validateField_def email_rule email_pattern_def)
     (simp add: js_def trim_def isWhiteSpace_def email_class_def)

lemma message_of_five_fails:
  "length v = 5 \<Longrightarrow>
     \<not> fst (validateField (f\<lparr>field_name := js ''message'', field_value := v\<rparr>) G)"
  using length_trim_le[of v]
  by (simp add: validateField_def message_rule Let_def)

lemma message_of_ten_passes:
  "length v = 10 \<Longrightarrow> trim v = v \<Longrightarrow>
     fst (validateField (f\<lparr>field_name := js ''message'', field_value := v\<rparr>) G)"
  by (auto simp add: validateField_def message_rule Let_def)

text \<open>
  C4. Single-field validation on the scenarios of the specification: the name \<open>A\<close> fails
  with the minimum-length message for 2 characters and the name \<open>Jane Doe\<close> passes; the
  email \<open>x\<close> fails with the pattern's message and \<open>a@b.co\<close> passes; every message of 5
  code units fails, and every message of exactly 10 code units (none of them surrounding
  white space, which \<open>trim\<close> would remove) passes.
\<close>

theorem validateField_scenarios:
  "\<not> fst (validateField (f\<lparr>field_name := js ''name'', field_value := js ''A''\<rparr>) G)
   \<and> snd (snd (validateField
        (f\<lparr>field_name := js ''name'', field_value := js ''A'', form_group := Some g\<rparr>) G)) g
       = drop 1 (G g) @ [js ''Must be at least 2 characters'']
   \<and> fst (validateField (f\<lparr>field_name := js ''name'', field_value := js ''Jane Doe''\<rparr>) G)
   \<and> \<not> fst (validateField (f\<lparr>field_name := js ''email'', field_value := js ''x''\<rparr>) G)
   \<and> snd (snd (validateField
        (f\<lparr>field_name := js ''email'', field_value := js ''x'', form_group := Some g\<rparr>) G)) g
       = drop 1 (G g) @ [js ''Please enter a valid email address'']
   \<and> fst (validateField (f\<lparr>field_name := js ''email'', field_value := js ''a@b.co''\<rparr>) G)
   \<and> (length v = 5 \<longrightarrow>
        \<not> fst (validateField (f\<lparr>field_name := js ''message'', field_value := v\<rparr>) G))
   \<and> (length w = 10 \<and> trim w = w \<longrightarrow>
        fst (validateField (f\<lparr>field_name := js ''message'', field_value := w\<rparr>) G))"
  using name_A_verdict[of f G] name_Jane_Doe_passes[of f G] email_x_verdict[of f G]
    email_a_b_co_passes[of f G] message_of_five_fails[of v f G] message_of_ten_passes[of w f G]
  by (simp add: name_A_fails email_x_fails)

theorem validateField_scenarios_witness:
  "length (js ''hello'') = 5
   \<and> \<not> fst (validateField
        ((example_field ''message'' [] Textarea True 3)
           \<lparr>field_name := js ''message'', field_value := js ''hello''\<rparr>) (\<lambda>g. []))
   \<and> length (js ''Hi there!!'') = 10 \<and> trim (js ''Hi there!!'') = js ''Hi there!!''
   \<and> fst (validateField
        ((example_field ''message'' [] Textarea True 3)
           \<lparr>field_name := js ''message'', field_value := js ''Hi there!!''\<rparr>) (\<lambda>g. []))"
proof -
  have five: "length (js ''hello'') = 5"
    by (simp add: js_def)
  have ten: "length (js ''Hi there!!'') = 10 \<and> trim (js ''Hi there!!'') = js ''Hi there!!''"
    by (simp add: js_def trim_def isWhiteSpace_def)
  show ?thesis
    using five ten
      validateField_scenarios[where f = "example_field ''message'' [] Textarea True 3"
        and G = "\<lambda>g. []" and v = "js ''hello''" and w = "js ''Hi there!!''"]
    by blast
qed








section \<open>Properties of form submission in the main script\<close>

lemma violates_fails:
  "VALIDATION_RULES (field_name f) = Some r \<Longrightarrow> violates r (trim (field_value f)) \<Longrightarrow> \<not> field_ok f"
  by (auto simp add: field_ok_def validateField_def violates_def Let_def split: option.splits)

lemma each_result:
  "fst (validateForm_each fs b G) = (b \<and> (\<forall>f \<in> set fs. required_selector f \<longrightarrow> field_ok f))"
  by (induction fs arbitrary: b G) (auto simp add: case_prod_unfold validateField_result)

lemma each_length: "length (fst (snd (validateForm_each fs b G))) = length fs"
  by (induction fs arbitrary: b G) (simp_all add: case_prod_unfold)

lemma validateField_other_group:
  "form_group f \<noteq> Some g \<Longrightarrow> snd (snd (validateField f G)) g = G g"
  by (simp add: validateField_def showFieldError_def clearFieldError_def Let_def
      split: option.splits)

lemma each_other_group:
  "\<forall>f \<in> set fs. form_group f \<noteq> Some g \<Longrightarrow> snd (snd (validateForm_each fs b G)) g = G g"
  by (induction fs arbitrary: b G) (simp_all add: case_prod_unfold validateField_other_group)

lemma validateField_shape:
  "validateField f G = (True, f, G) \<or> validateField f G = (True, clearFieldError f G) \<or>
   (\<exists>msg. validateField f G = (False, showFieldError f msg G))"
proof (cases "VALIDATION_RULES (field_name f)")
  case None
  then show ?thesis
    by (simp add: validateField_def)
next
  case (Some r)
  define pv where "pv =
     (if (case pattern r of None \<Rightarrow> False | Some p \<Rightarrow> \<not> rx_test p (trim (field_value f)))
      then (False, showFieldError f (message r) G)
      else (True, clearFieldError f G))"
  have pv: "pv = (True, clearFieldError f G) \<or> (\<exists>msg. pv = (False, showFieldError f msg G))"
    unfolding pv_def by auto
  have vf: "validateField f G =
     (if required r \<and> trim (field_value f) = [] then
        (False, showFieldError f (required_message f) G)
      else if trim (field_value f) = [] \<and> \<not> required r then (True, f, G)
      else
        (case minLength r of
           None \<Rightarrow> pv
         | Some n \<Rightarrow>
             if n \<noteq> 0 \<and> length (trim (field_value f)) < n then
               (False, showFieldError f
                  (js ''Must be at least '' @ decimal n @ js '' characters'') G)
             else pv))"
    unfolding validateField_def Let_def pv_def by (simp add: Some)
  show ?thesis
  proof (cases "minLength r")
    case None
    with vf pv show ?thesis
      by auto
  next
    case (Some n)
    with vf pv show ?thesis
      by auto
  qed
qed

lemma validateField_failed:
  assumes "\<not> field_ok f" and "form_group f = Some g"
  shows "fst (snd (validateField f G)) = f\<lparr>class_error := True, aria_invalid := Some (js ''true'')\<rparr> \<and>
     length (snd (snd (validateField f G)) g) = Suc (length (drop 1 (G g)))"
proof -
  from assms(1) have "\<not> fst (validateField f G)"
    by (simp add: validateField_result)
  with validateField_shape[of f G] obtain msg where
    "validateField f G = (False, showFieldError f msg G)"
    by auto
  with assms(2) show ?thesis
    by (simp add: showFieldError_def)
qed

lemma validateField_keeps:
  "field_name (fst (snd (validateField f G))) = field_name f \<and>
   field_value (fst (snd (validateField f G))) = field_value f \<and>
   form_group (fst (snd (validateField f G))) = form_group f"
  by (simp add: validateField_def showFieldError_def clearFieldError_def Let_def
      split: option.splits)

lemma each_failed_flags:
  "i < length fs \<Longrightarrow> required_selector (fs ! i) \<Longrightarrow> \<not> field_ok (fs ! i) \<Longrightarrow>
   form_group (fs ! i) = Some g \<Longrightarrow>
     class_error (fst (snd (validateForm_each fs b G)) ! i) \<and>
     aria_invalid (fst (snd (validateForm_each fs b G)) ! i) = Some (js ''true'')"
proof (induction fs arbitrary: i b G)
  case Nil
  then show ?case by simp
next
  case (Cons f fs)
  show ?case
  proof (cases i)
    case 0
    with Cons.prems show ?thesis
      using validateField_failed[of f g G] by (simp add: case_prod_unfold)
  next
    case (Suc j)
    with Cons.prems Cons.IH[of j] show ?thesis by (simp add: case_prod_unfold)
  qed
qed

lemma each_failed_span:
  "i < length fs \<Longrightarrow> required_selector (fs ! i) \<Longrightarrow> \<not> field_ok (fs ! i) \<Longrightarrow>
   form_group (fs ! i) = Some g \<Longrightarrow>
   \<forall>j < length fs. j \<noteq> i \<longrightarrow> form_group (fs ! j) \<noteq> Some g \<Longrightarrow>
     length (snd (snd (validateForm_each fs b G)) g) = Suc (length (drop 1 (G g)))"
proof (induction fs arbitrary: i b G)
  case Nil
  then show ?case by simp
next
  case (Cons f fs)
  show ?case
  proof (cases i)
    case 0
    with Cons.prems have vf: "length (snd (snd (validateField f G)) g) = Suc (length (drop 1 (G g)))"
      using validateField_failed[of f g G] by simp
    have "\<forall>f' \<in> set fs. form_group f' \<noteq> Some g"
    proof
      fix f' assume "f' \<in> set fs"
      then obtain k where "k < length fs" "fs ! k = f'" by (auto simp: in_set_conv_nth)
      with Cons.prems(5) 0 show "form_group f' \<noteq> Some g"
        by (metis Suc_less_eq length_Cons nat.simps(3) nth_Cons_Suc)
    qed
    then have "\<And>b' G'. snd (snd (validateForm_each fs b' G')) g = G' g"
      by (rule each_other_group)
    with 0 Cons.prems vf show ?thesis by (simp add: case_prod_unfold)
  next
    case (Suc j)
    have fg: "form_group f \<noteq> Some g"
      using Cons.prems(5) Suc by (metis length_Cons nat.simps(3) nth_Cons_0 zero_less_Suc)
    have rest: "\<forall>k < length fs. k \<noteq> j \<longrightarrow> form_group (fs ! k) \<noteq> Some g"
    proof (intro allI impI)
      fix k assume "k < length fs" "k \<noteq> j"
      with Cons.prems(5) Suc show "form_group (fs ! k) \<noteq> Some g"
        by (metis Suc_less_eq length_Cons nat.inject nth_Cons_Suc)
    qed
    have ih: "\<And>b' G'. length (snd (snd (validateForm_each fs b' G')) g) = Suc (length (drop 1 (G' g)))"
      using Cons.IH[of j] Cons.prems Suc rest by simp
    show ?thesis
      using fg ih validateField_other_group[of f g G] by (simp add: case_prod_unfold)
  qed
qed

lemma clearAllErrors_inputs: "inputs (clearAllErrors p) = map clear_error_class (inputs p)"
  by (simp add: clearAllErrors_def clear_error_class_def)

lemma clearAllErrors_spans: "spans (clearAllErrors p) g = []"
  by (simp add: clearAllErrors_def)

lemma clear_error_class_keeps:
  "field_name (clear_error_class f) = field_name f"
  "field_value (clear_error_class f) = field_value f"
  "form_group (clear_error_class f) = form_group f"
  "required_selector (clear_error_class f) = required_selector f"
  by (simp_all add: clear_error_class_def required_selector_def)

lemma field_ok_clear: "field_ok (clear_error_class f) = field_ok f"
  by (rule field_ok_cong) (simp_all add: clear_error_class_keeps)

lemma handleFormSubmit_invalid:
  assumes "\<not> fst (validateForm (inputs (clearAllErrors p)) (spans (clearAllErrors p)))"
  shows "handleFormSubmit p =
     (clearAllErrors p)\<lparr>inputs := fst (snd (validateForm (inputs (clearAllErrors p)) (spans (clearAllErrors p)))),
                        spans := snd (snd (validateForm (inputs (clearAllErrors p)) (spans (clearAllErrors p))))\<rparr>"
  using assms by (simp add: handleFormSubmit_def Let_def case_prod_unfold)

text \<open>
  For a control that the selector of \<open>validateForm\<close> does match, a submit does abort.
  When such a control whose name has a rule holds a value that violates the rule (required,
  minimum length or pattern, on the trimmed value), overall validation fails and
  \<open>handleFormSubmit\<close> starts no simulated submission: no call, no timer, and the button
  is not put into the loading state. If the control sits in a form group it is marked
  invalid, and if no other control shares that group, the group shows exactly one inline
  error.
\<close>

lemma required_control_aborts_submit:
  assumes i: "i < length (inputs p)"
    and sel: "required_selector (inputs p ! i)"
    and rule: "VALIDATION_RULES (field_name (inputs p ! i)) = Some r"
    and viol: "violates r (trim (field_value (inputs p ! i)))"
  shows "\<not> fst (validateForm (inputs (clearAllErrors p)) (spans (clearAllErrors p)))
       \<and> sim_calls (handleFormSubmit p) = sim_calls p
       \<and> timers (handleFormSubmit p) = timers p
       \<and> submit_button (handleFormSubmit p) = submit_button (clearAllErrors p)
       \<and> (\<forall>g. form_group (inputs p ! i) = Some g \<longrightarrow>
             class_error (inputs (handleFormSubmit p) ! i)
           \<and> aria_invalid (inputs (handleFormSubmit p) ! i) = Some (js ''true'')
           \<and> ((\<forall>j < length (inputs p). j \<noteq> i \<longrightarrow> form_group (inputs p ! j) \<noteq> Some g)
                \<longrightarrow> length (spans (handleFormSubmit p) g) = 1))"
proof -
  let ?fs = "inputs (clearAllErrors p)"
  let ?G = "spans (clearAllErrors p)"
  have len: "i < length ?fs"
    using i by (simp add: clearAllErrors_inputs)
  have nth: "?fs ! i = clear_error_class (inputs p ! i)"
    using i by (simp add: clearAllErrors_inputs)
  have bad: "\<not> field_ok (?fs ! i)"
    using violates_fails[OF rule viol] by (simp add: nth field_ok_clear)
  have sel': "required_selector (?fs ! i)"
    using sel by (simp add: nth clear_error_class_keeps)
  have "?fs ! i \<in> set ?fs"
    using len by simp
  with bad sel' have invalid: "\<not> fst (validateForm ?fs ?G)"
    unfolding validateForm_def each_result by blast
  note hs = handleFormSubmit_invalid[OF invalid]
  have display: "class_error (inputs (handleFormSubmit p) ! i)
           \<and> aria_invalid (inputs (handleFormSubmit p) ! i) = Some (js ''true'')
           \<and> ((\<forall>j < length (inputs p). j \<noteq> i \<longrightarrow> form_group (inputs p ! j) \<noteq> Some g)
                \<longrightarrow> length (spans (handleFormSubmit p) g) = 1)"
    if grp: "form_group (inputs p ! i) = Some g" for g
  proof -
    have grp': "form_group (?fs ! i) = Some g"
      using grp by (simp add: nth clear_error_class_keeps)
    have flags: "class_error (inputs (handleFormSubmit p) ! i)
           \<and> aria_invalid (inputs (handleFormSubmit p) ! i) = Some (js ''true'')"
      using each_failed_flags[OF len sel' bad grp', of True ?G]
      by (simp add: hs validateForm_def)
    have one: "length (spans (handleFormSubmit p) g) = 1"
      if alone: "\<forall>j < length (inputs p). j \<noteq> i \<longrightarrow> form_group (inputs p ! j) \<noteq> Some g"
    proof -
      have "\<forall>j < length ?fs. j \<noteq> i \<longrightarrow> form_group (?fs ! j) \<noteq> Some g"
        using alone by (simp add: clearAllErrors_inputs clear_error_class_keeps)
      from each_failed_span[OF len sel' bad grp' this, of True ?G]
      show ?thesis
        by (simp add: hs validateForm_def clearAllErrors_spans)
    qed
    from flags one show ?thesis by blast
  qed
  have rest: "sim_calls (handleFormSubmit p) = sim_calls p
       \<and> timers (handleFormSubmit p) = timers p
       \<and> submit_button (handleFormSubmit p) = submit_button (clearAllErrors p)"
    by (simp add: hs) (simp add: clearAllErrors_def)
  from invalid rest display show ?thesis by blast
qed

lemmas example_eval =
  example_form_def example_field_def example_button_def handleFormSubmit_def clearAllErrors_def
  validateForm_def required_selector_def validateField_def VALIDATION_RULES_def js_def
  trim_def isWhiteSpace_def name_pattern_def name_class_def email_pattern_def email_class_def
  phone_pattern_def phone_class_def
  clearFieldError_def showFieldError_def simulateFormSubmission_def setTimeout_def Let_def
  setButtonState_def violates_def decimal_values

lemma required_control_aborts_submit_example:
  "0 < length (inputs (example_form ''A'' ''555 1234''))
   \<and> required_selector (inputs (example_form ''A'' ''555 1234'') ! 0)
   \<and> VALIDATION_RULES (field_name (inputs (example_form ''A'' ''555 1234'') ! 0)) =
       Some \<lparr>required = True, minLength = Some 2, pattern = Some name_pattern,
         message = js ''Please enter a valid name (letters, spaces, hyphens, and apostrophes only)''\<rparr>
   \<and> violates \<lparr>required = True, minLength = Some 2, pattern = Some name_pattern,
         message = js ''Please enter a valid name (letters, spaces, hyphens, and apostrophes only)''\<rparr>
        (trim (field_value (inputs (example_form ''A'' ''555 1234'') ! 0)))
   \<and> sim_calls (handleFormSubmit (example_form ''A'' ''555 1234'')) = 0
   \<and> timers (handleFormSubmit (example_form ''A'' ''555 1234'')) = []
   \<and> class_error (inputs (handleFormSubmit (example_form ''A'' ''555 1234'')) ! 0)
   \<and> length (spans (handleFormSubmit (example_form ''A'' ''555 1234'')) 0) = 1"
proof -
  let ?p = "example_form ''A'' ''555 1234''"
  let ?r = "\<lparr>required = True, minLength = Some 2, pattern = Some name_pattern,
         message = js ''Please enter a valid name (letters, spaces, hyphens, and apostrophes only)''\<rparr>"
  have h1: "0 < length (inputs ?p)"
    by (simp add: example_form_def)
  have h2: "required_selector (inputs ?p ! 0)"
    by (simp add: example_form_def example_field_def required_selector_def)
  have h3: "VALIDATION_RULES (field_name (inputs ?p ! 0)) = Some ?r"
    by (simp add: example_form_def example_field_def name_rule)
  have h4: "violates ?r (trim (field_value (inputs ?p ! 0)))"
    by (simp add: example_form_def example_field_def violates_def js_def trim_def isWhiteSpace_def)
  have grp: "form_group (inputs ?p ! 0) = Some 0"
    by (simp add: example_form_def example_field_def)
  have alone: "\<forall>j < length (inputs ?p). j \<noteq> 0 \<longrightarrow> form_group (inputs ?p ! j) \<noteq> Some 0"
    by (simp add: example_form_def example_field_def nth_Cons split: nat.splits)
  have start: "sim_calls ?p = 0 \<and> timers ?p = []"
    by (simp add: example_form_def)
  from required_control_aborts_submit[OF h1 h2 h3 h4] grp alone start h1 h2 h3 h4
  show ?thesis
    by simp
qed

text \<open>
  C3. The phone control has a rule, but \<open>validateForm\<close> selects
  \<open>input[required], textarea[required]\<close> only, and a phone control is optional (its
  rule has \<open>required: false\<close>), so it carries no \<open>required\<close> attribute. With the
  phone value \<open>abc\<close>, which violates the pattern of the rule, and every other control
  valid, a submit passes validation, shows no error for the phone control and starts a
  simulated submission, although \<open>validateForm\<close> is documented to validate the entire
  form. The blur handler of the same control does report the violation; a submit after it
  clears that error and submits.
\<close>

theorem invalid_phone_is_submitted:
  "field_name (inputs (example_form ''Jane Doe'' ''abc'') ! 2) = js ''phone''
   \<and> \<not> has_required (inputs (example_form ''Jane Doe'' ''abc'') ! 2)
   \<and> VALIDATION_RULES (js ''phone'') =
        Some \<lparr>required = False, minLength = None, pattern = Some phone_pattern,
          message = js ''Please enter a valid phone number''\<rparr>
   \<and> violates \<lparr>required = False, minLength = None, pattern = Some phone_pattern,
          message = js ''Please enter a valid phone number''\<rparr>
        (trim (field_value (inputs (example_form ''Jane Doe'' ''abc'') ! 2)))
   \<and> fst (validateForm (inputs (clearAllErrors (example_form ''Jane Doe'' ''abc'')))
        (spans (clearAllErrors (example_form ''Jane Doe'' ''abc''))))
   \<and> sim_calls (example_form ''Jane Doe'' ''abc'') = 0
   \<and> sim_calls (form_run [Submit] (example_form ''Jane Doe'' ''abc'')) = 1
   \<and> timers (form_run [Submit] (example_form ''Jane Doe'' ''abc''))
        = [(1, 2000, SimulatedSubmission)]
   \<and> spans (form_run [Submit] (example_form ''Jane Doe'' ''abc'')) 2 = []
   \<and> \<not> class_error (inputs (form_run [Submit] (example_form ''Jane Doe'' ''abc'')) ! 2)
   \<and> spans (form_run [Blur 2] (example_form ''Jane Doe'' ''abc'')) 2
        = [js ''Please enter a valid phone number'']
   \<and> class_error (inputs (form_run [Blur 2] (example_form ''Jane Doe'' ''abc'')) ! 2)
   \<and> sim_calls (form_run [Blur 2, Submit] (example_form ''Jane Doe'' ''abc'')) = 1
   \<and> spans (form_run [Blur 2, Submit] (example_form ''Jane Doe'' ''abc'')) 2 = []"
  by (simp add: example_eval form_run_def form_step_def)

section \<open>Properties of the navigation handler\<close>

lemma find_None_iff_all: "(find P xs = None) = (\<forall>x \<in> set xs. \<not> P x)"
  by (induction xs) auto

lemma getElementById_missing:
  "\<forall>e \<in> set es. element_id e \<noteq> i \<Longrightarrow> getElementById i es = None"
  by (simp add: getElementById_def find_None_iff_all)

text \<open>
  C8. A click on a link whose \<open>href\<close> is \<open>#\<close> followed by an id that no element of the
  document has: the handler prevents the default navigation, writes one warning to the
  console and does nothing else; no scroll is requested, no URL is pushed, focus and every
  element stay as they were.
\<close>

theorem handleSmoothScroll_missing_target:
  assumes "\<forall>e \<in> set (elements p). element_id e \<noteq> targetId"
  shows "handleSmoothScroll (Some (35 # targetId)) p =
           (True, p\<lparr>console := console p @ [(''warn'', ''Smooth scroll target not found'')]\<rparr>)
       \<and> scroll_requests (snd (handleSmoothScroll (Some (35 # targetId)) p)) = scroll_requests p
       \<and> pushed_urls (snd (handleSmoothScroll (Some (35 # targetId)) p)) = pushed_urls p
       \<and> focused (snd (handleSmoothScroll (Some (35 # targetId)) p)) = focused p
       \<and> elements (snd (handleSmoothScroll (Some (35 # targetId)) p)) = elements p"
  using getElementById_missing[OF assms]
  by (simp add: handleSmoothScroll_def log_def)

theorem handleSmoothScroll_missing_target_witness:
  "js ''#pricing'' = 35 # js ''pricing''
   \<and> element_id (elements example_nav_page ! 0) \<noteq> js ''pricing''
   \<and> element_id (elements example_nav_page ! 1) \<noteq> js ''pricing''
   \<and> length (elements example_nav_page) = 2
   \<and> handleSmoothScroll (Some (js ''#pricing'')) example_nav_page =
       (True, example_nav_page\<lparr>console := [(''warn'', ''Smooth scroll target not found'')]\<rparr>)
   \<and> scroll_requests (snd (handleSmoothScroll (Some (js ''#pricing'')) example_nav_page)) = []"
proof -
  have h: "\<forall>e \<in> set (elements example_nav_page). element_id e \<noteq> js ''pricing''"
    by (simp add: example_nav_page_def js_def)
  have eq: "js ''#pricing'' = 35 # js ''pricing''"
    by (simp add: js_def)
  have facts: "element_id (elements example_nav_page ! 0) \<noteq> js ''pricing''
      \<and> element_id (elements example_nav_page ! 1) \<noteq> js ''pricing''
      \<and> length (elements example_nav_page) = 2
      \<and> console example_nav_page = [] \<and> scroll_requests example_nav_page = []"
    by (simp add: example_nav_page_def js_def)
  from handleSmoothScroll_missing_target[OF h] eq facts show ?thesis
    by simp
qed

section \<open>Properties of the interactions script and of the button in the main script\<close>

lemmas state_names = IDLE_def LOADING_def SUCCESS_def ERROR_def

lemma setState_IDLE:
  "currentState (setState IDLE opts p) = IDLE"
  "timers (setState IDLE opts p) = cleared p"
  "state_changes (setState IDLE opts p) = state_changes p @ [IDLE]"
  "last_timer (setState IDLE opts p) = last_timer p"
  "isSubmitting (setState IDLE opts p) = isSubmitting p"
  "submissions (setState IDLE opts p) = submissions p"
  "now (setState IDLE opts p) = now p"
  by (simp_all add: setState_def setIdleState_def clearTimeout_def cleared_def Let_def
      split: option.splits)

lemma setState_LOADING:
  "currentState (setState LOADING opts p) = LOADING"
  "timers (setState LOADING opts p) = cleared p"
  "state_changes (setState LOADING opts p) = state_changes p @ [LOADING]"
  "last_timer (setState LOADING opts p) = last_timer p"
  "isSubmitting (setState LOADING opts p) = isSubmitting p"
  "submissions (setState LOADING opts p) = submissions p"
  "now (setState LOADING opts p) = now p"
  by (simp_all add: setState_def setLoadingState_def clearTimeout_def cleared_def Let_def state_names
      split: option.splits)

lemma setState_SUCCESS:
  "currentState (setState SUCCESS opts p) = SUCCESS"
  "timers (setState SUCCESS opts p) =
     cleared p @ [(Suc (last_timer p), now p + duration_or opts SUCCESS_DISPLAY_DURATION, BackToIdle)]"
  "state_changes (setState SUCCESS opts p) = state_changes p @ [SUCCESS]"
  "last_timer (setState SUCCESS opts p) = Suc (last_timer p)"
  "stateTimeout (setState SUCCESS opts p) = Some (Suc (last_timer p))"
  "isSubmitting (setState SUCCESS opts p) = isSubmitting p"
  "submissions (setState SUCCESS opts p) = submissions p"
  "now (setState SUCCESS opts p) = now p"
  by (simp_all add: setState_def setSuccessState_def clearTimeout_def cleared_def Let_def
      state_names setTimeout_def split: option.splits)

lemma setState_ERROR:
  "currentState (setState ERROR opts p) = ERROR"
  "timers (setState ERROR opts p) =
     cleared p @ [(Suc (last_timer p), now p + duration_or opts ERROR_DISPLAY_DURATION, BackToIdle)]"
  "state_changes (setState ERROR opts p) = state_changes p @ [ERROR]"
  "last_timer (setState ERROR opts p) = Suc (last_timer p)"
  "stateTimeout (setState ERROR opts p) = Some (Suc (last_timer p))"
  "isSubmitting (setState ERROR opts p) = isSubmitting p"
  "submissions (setState ERROR opts p) = submissions p"
  "now (setState ERROR opts p) = now p"
  by (simp_all add: setState_def setErrorState_def clearTimeout_def cleared_def Let_def
      state_names setTimeout_def split: option.splits)

lemma stateTimeout_IDLE:
  "stateTimeout (setState IDLE opts p) = (if stateTimeout p = Some 0 then Some 0 else None)"
  by (simp add: setState_def setIdleState_def clearTimeout_def Let_def split: option.splits)

lemma stateTimeout_LOADING:
  "stateTimeout (setState LOADING opts p) = (if stateTimeout p = Some 0 then Some 0 else None)"
  by (simp add: setState_def setLoadingState_def clearTimeout_def Let_def state_names
      split: option.splits)

lemma button_invD:
  assumes "button_inv cs st T sub isub sto lt"
  shows "cs \<noteq> []" and "last cs = st" and "st \<in> set BUTTON_STATES"
    and "successively allowed_next cs" and "count_list cs LOADING = sub"
    and "isub = (st = LOADING)"
    and "\<And>x. x \<in> set T \<Longrightarrow> in_flight (snd (snd x)) \<Longrightarrow> st = LOADING"
    and "\<And>x y. x \<in> set T \<Longrightarrow> y \<in> set T \<Longrightarrow> in_flight (snd (snd x)) \<Longrightarrow>
           in_flight (snd (snd y)) \<Longrightarrow> fst x = fst y"
    and "\<And>x. x \<in> set T \<Longrightarrow> snd (snd x) = BackToIdle \<Longrightarrow> sto = Some (fst x)"
    and "\<And>x. x \<in> set T \<Longrightarrow> snd (snd x) = BackToIdle \<Longrightarrow> st = SUCCESS \<or> st = ERROR"
    and "\<And>x. x \<in> set T \<Longrightarrow> sto = Some (fst x) \<Longrightarrow> snd (snd x) = BackToIdle"
    and "sto \<noteq> Some 0"
    and "\<And>x. x \<in> set T \<Longrightarrow> 0 < fst x"
    and "\<And>x. x \<in> set T \<Longrightarrow> fst x \<le> lt"
    and "\<And>t. sto = Some t \<Longrightarrow> t \<le> lt"
  using assms unfolding button_inv_def by blast+

lemma button_invI:
  assumes "cs \<noteq> []" and "last cs = st" and "st \<in> set BUTTON_STATES"
    and "successively allowed_next cs" and "count_list cs LOADING = sub"
    and "isub = (st = LOADING)"
    and "\<And>x. x \<in> set T \<Longrightarrow> in_flight (snd (snd x)) \<Longrightarrow> st = LOADING"
    and "\<And>x y. x \<in> set T \<Longrightarrow> y \<in> set T \<Longrightarrow> in_flight (snd (snd x)) \<Longrightarrow>
           in_flight (snd (snd y)) \<Longrightarrow> fst x = fst y"
    and "\<And>x. x \<in> set T \<Longrightarrow> snd (snd x) = BackToIdle \<Longrightarrow> sto = Some (fst x)"
    and "\<And>x. x \<in> set T \<Longrightarrow> snd (snd x) = BackToIdle \<Longrightarrow> st = SUCCESS \<or> st = ERROR"
    and "\<And>x. x \<in> set T \<Longrightarrow> sto = Some (fst x) \<Longrightarrow> snd (snd x) = BackToIdle"
    and "sto \<noteq> Some 0"
    and "\<And>x. x \<in> set T \<Longrightarrow> 0 < fst x"
    and "\<And>x. x \<in> set T \<Longrightarrow> fst x \<le> lt"
    and "\<And>t. sto = Some t \<Longrightarrow> t \<le> lt"
  shows "button_inv cs st T sub isub sto lt"
  unfolding button_inv_def using assms by blast

lemma cleared_cancelled: "cleared p = cancelled (stateTimeout p) (timers p)"
  by (simp add: cleared_def cancelled_def)

lemma cancelled_subset: "set (cancelled sto T) \<subseteq> set T"
  by (auto simp add: cancelled_def split: option.splits)

lemma cancelled_no_BackToIdle:
  assumes "button_inv cs st T sub isub sto lt" and "x \<in> set (cancelled sto T)"
  shows "snd (snd x) \<noteq> BackToIdle"
proof
  assume b: "snd (snd x) = BackToIdle"
  from assms(2) cancelled_subset have xT: "x \<in> set T" by blast
  have sto: "sto = Some (fst x)"
    using button_invD(9)[OF assms(1) xT b] .
  have "sto \<noteq> Some 0"
    using button_invD(12)[OF assms(1)] .
  with sto have "fst x \<noteq> 0" by auto
  with sto assms(2) show False
    by (simp add: cancelled_def)
qed

lemma states_distinct:
  "IDLE \<noteq> LOADING" "IDLE \<noteq> SUCCESS" "IDLE \<noteq> ERROR" "LOADING \<noteq> SUCCESS" "LOADING \<noteq> ERROR"
  "SUCCESS \<noteq> ERROR" "LOADING \<noteq> IDLE" "SUCCESS \<noteq> IDLE" "ERROR \<noteq> IDLE" "SUCCESS \<noteq> LOADING"
  "ERROR \<noteq> LOADING" "ERROR \<noteq> SUCCESS"
  by (simp_all add: state_names)

lemma successively_snoc:
  "xs \<noteq> [] \<Longrightarrow> successively P xs \<Longrightarrow> P (last xs) y \<Longrightarrow> successively P (xs @ [y])"
  by (simp add: successively_append_iff)

lemma button_inv_subset:
  assumes inv: "button_inv cs st T sub isub sto lt" and sub: "set T' \<subseteq> set T"
  shows "button_inv cs st T' sub isub sto lt"
proof (rule button_invI)
  show "cs \<noteq> []" "last cs = st" "st \<in> set BUTTON_STATES" "successively allowed_next cs"
    "count_list cs LOADING = sub" "isub = (st = LOADING)" "sto \<noteq> Some 0"
    by (rule button_invD[OF inv])+
  show "st = LOADING" if "x \<in> set T'" "in_flight (snd (snd x))" for x
    using button_invD(7)[OF inv, of x] that sub by blast
  show "fst x = fst y"
    if "x \<in> set T'" "y \<in> set T'" "in_flight (snd (snd x))" "in_flight (snd (snd y))" for x y
    using button_invD(8)[OF inv, of x y] that sub by blast
  show "sto = Some (fst x)" if "x \<in> set T'" "snd (snd x) = BackToIdle" for x
    using button_invD(9)[OF inv, of x] that sub by blast
  show "st = SUCCESS \<or> st = ERROR" if "x \<in> set T'" "snd (snd x) = BackToIdle" for x
    using button_invD(10)[OF inv, of x] that sub by blast
  show "snd (snd x) = BackToIdle" if "x \<in> set T'" "sto = Some (fst x)" for x
    using button_invD(11)[OF inv, of x] that sub by blast
  show "0 < fst x" if "x \<in> set T'" for x
    using button_invD(13)[OF inv, of x] that sub by blast
  show "fst x \<le> lt" if "x \<in> set T'" for x
    using button_invD(14)[OF inv, of x] that sub by blast
  show "t \<le> lt" if "sto = Some t" for t
    using button_invD(15)[OF inv that] .
qed

lemma button_inv_submit:
  assumes inv: "button_inv cs st T sub isub sto lt" and st: "st \<noteq> LOADING"
  shows "button_inv (cs @ [LOADING]) LOADING (cancelled sto T @ [(Suc lt, due, SubmissionSettles s)])
           (Suc sub) True None (Suc lt)"
proof (rule button_invI)
  let ?T = "cancelled sto T"
  let ?T' = "?T @ [(Suc lt, due, SubmissionSettles s)]"
  have sub: "set ?T \<subseteq> set T" by (rule cancelled_subset)
  have nf: "\<not> in_flight (snd (snd x))" if "x \<in> set ?T" for x
    using button_invD(7)[OF inv, of x] st sub that by blast
  show "cs @ [LOADING] \<noteq> []" by simp
  show "last (cs @ [LOADING]) = LOADING" by simp
  show "LOADING \<in> set BUTTON_STATES" by (simp add: BUTTON_STATES_def)
  have "st \<in> set BUTTON_STATES" by (rule button_invD(3)[OF inv])
  with st have "allowed_next st LOADING"
    by (auto simp add: allowed_next_def BUTTON_STATES_def)
  then show "successively allowed_next (cs @ [LOADING])"
    using button_invD(1,2,4)[OF inv] by (simp add: successively_snoc)
  show "count_list (cs @ [LOADING]) LOADING = Suc sub"
    using button_invD(5)[OF inv] by simp
  show "True = (LOADING = LOADING)" by simp
  show "LOADING = LOADING" if "x \<in> set ?T'" for x by simp
  show "fst x = fst y"
    if "x \<in> set ?T'" "y \<in> set ?T'" "in_flight (snd (snd x))" "in_flight (snd (snd y))" for x y
    using that nf[of x] nf[of y] by auto
  show "None = Some (fst x)" if "x \<in> set ?T'" "snd (snd x) = BackToIdle" for x
    using that cancelled_no_BackToIdle[OF inv, of x] by auto
  show "LOADING = SUCCESS \<or> LOADING = ERROR" if "x \<in> set ?T'" "snd (snd x) = BackToIdle" for x
    using that cancelled_no_BackToIdle[OF inv, of x] by auto
  show "snd (snd x) = BackToIdle" if "x \<in> set ?T'" "None = Some (fst x)" for x
    using that by simp
  show "None \<noteq> Some (0::nat)" by simp
  show "0 < fst x" if "x \<in> set ?T'" for x
    using that button_invD(13)[OF inv, of x] sub by auto
  show "fst x \<le> Suc lt" if "x \<in> set ?T'" for x
    using that button_invD(14)[OF inv, of x] sub by auto
  show "t \<le> Suc lt" if "None = Some t" for t
    using that by simp
qed

lemma button_inv_idle:
  assumes inv: "button_inv cs st T sub isub sto lt"
    and st: "st = SUCCESS \<or> st = ERROR"
    and nb: "\<And>x. x \<in> set T \<Longrightarrow> snd (snd x) \<noteq> BackToIdle"
    and sub: "set T' \<subseteq> set T"
  shows "button_inv (cs @ [IDLE]) IDLE T' sub isub None lt"
proof (rule button_invI)
  have nl: "st \<noteq> LOADING"
    using st states_distinct by auto
  show "cs @ [IDLE] \<noteq> []" by simp
  show "last (cs @ [IDLE]) = IDLE" by simp
  show "IDLE \<in> set BUTTON_STATES" by (simp add: BUTTON_STATES_def)
  from st have "allowed_next st IDLE"
    by (auto simp add: allowed_next_def)
  then show "successively allowed_next (cs @ [IDLE])"
    using button_invD(1,2,4)[OF inv] by (simp add: successively_snoc)
  show "count_list (cs @ [IDLE]) LOADING = sub"
    using button_invD(5)[OF inv] by (simp add: states_distinct)
  show "isub = (IDLE = LOADING)"
    using button_invD(6)[OF inv] nl by (simp add: states_distinct)
  show "IDLE = LOADING" if "x \<in> set T'" "in_flight (snd (snd x))" for x
    using button_invD(7)[OF inv, of x] that sub nl by blast
  show "fst x = fst y"
    if "x \<in> set T'" "y \<in> set T'" "in_flight (snd (snd x))" "in_flight (snd (snd y))" for x y
    using button_invD(8)[OF inv, of x y] that sub by blast
  show "None = Some (fst x)" if "x \<in> set T'" "snd (snd x) = BackToIdle" for x
    using nb[of x] that sub by blast
  show "IDLE = SUCCESS \<or> IDLE = ERROR" if "x \<in> set T'" "snd (snd x) = BackToIdle" for x
    using nb[of x] that sub by blast
  show "snd (snd x) = BackToIdle" if "x \<in> set T'" "None = Some (fst x)" for x
    using that by simp
  show "None \<noteq> Some (0::nat)" by simp
  show "0 < fst x" if "x \<in> set T'" for x
    using button_invD(13)[OF inv, of x] that sub by blast
  show "fst x \<le> lt" if "x \<in> set T'" for x
    using button_invD(14)[OF inv, of x] that sub by blast
  show "t \<le> lt" if "None = Some t" for t
    using that by simp
qed

lemma button_inv_settled:
  assumes inv: "button_inv cs LOADING T sub isub sto lt"
    and nf: "\<And>x. x \<in> set T \<Longrightarrow> \<not> in_flight (snd (snd x))"
    and s': "s' = SUCCESS \<or> s' = ERROR"
    and cb2: "cb2 \<noteq> BackToIdle" "\<not> in_flight cb2"
    and sub: "set T' \<subseteq> set T"
  shows "button_inv (cs @ [s']) s' (T' @ [(Suc lt, d1, BackToIdle), (Suc (Suc lt), d2, cb2)])
           sub False (Some (Suc lt)) (Suc (Suc lt))"
proof (rule button_invI)
  let ?N = "T' @ [(Suc lt, d1, BackToIdle), (Suc (Suc lt), d2, cb2)]"
  have nl: "s' \<noteq> LOADING"
    using s' states_distinct by auto
  have nb: "snd (snd x) \<noteq> BackToIdle" if "x \<in> set T" for x
    using button_invD(10)[OF inv that] states_distinct by auto
  have old: "x \<in> set T'" if "x \<in> set ?N" "fst x \<noteq> Suc lt" "fst x \<noteq> Suc (Suc lt)" for x
    using that by auto
  have le: "fst x \<le> lt" if "x \<in> set T'" for x
    using button_invD(14)[OF inv, of x] that sub by blast
  show "cs @ [s'] \<noteq> []" by simp
  show "last (cs @ [s']) = s'" by simp
  show "s' \<in> set BUTTON_STATES" using s' by (auto simp add: BUTTON_STATES_def)
  from s' have "allowed_next LOADING s'"
    by (auto simp add: allowed_next_def)
  then show "successively allowed_next (cs @ [s'])"
    using button_invD(1,2,4)[OF inv] by (simp add: successively_snoc)
  show "count_list (cs @ [s']) LOADING = sub"
    using button_invD(5)[OF inv] nl by simp
  show "False = (s' = LOADING)" using nl by simp
  show "s' = LOADING" if "x \<in> set ?N" "in_flight (snd (snd x))" for x
    using that nf[of x] sub cb2 by (auto simp add: in_flight_def)
  show "fst x = fst y"
    if "x \<in> set ?N" "y \<in> set ?N" "in_flight (snd (snd x))" "in_flight (snd (snd y))" for x y
    using that nf[of x] sub cb2 by (auto simp add: in_flight_def)
  show "Some (Suc lt) = Some (fst x)" if "x \<in> set ?N" "snd (snd x) = BackToIdle" for x
    using that nb[of x] sub cb2 by auto
  show "s' = SUCCESS \<or> s' = ERROR" if "x \<in> set ?N" "snd (snd x) = BackToIdle" for x
    by (rule s')
  show "snd (snd x) = BackToIdle" if "x \<in> set ?N" "Some (Suc lt) = Some (fst x)" for x
  proof -
    from that(1) consider "x \<in> set T'" | "x = (Suc lt, d1, BackToIdle)"
      | "x = (Suc (Suc lt), d2, cb2)"
      by auto
    then show ?thesis
    proof cases
      case 1
      with le[of x] that(2) show ?thesis by simp
    next
      case 2
      then show ?thesis by simp
    next
      case 3
      with that(2) show ?thesis by simp
    qed
  qed
  show "Some (Suc lt) \<noteq> Some 0" by simp
  show "0 < fst x" if "x \<in> set ?N" for x
    using that button_invD(13)[OF inv, of x] sub by auto
  show "fst x \<le> Suc (Suc lt)" if "x \<in> set ?N" for x
    using that le[of x] by auto
  show "t \<le> Suc (Suc lt)" if "Some (Suc lt) = Some t" for t
    using that by auto
qed

lemma button_inv_delay:
  assumes inv: "button_inv cs LOADING T sub isub sto lt"
    and nf: "\<And>x. x \<in> set T' \<Longrightarrow> \<not> in_flight (snd (snd x))"
    and sub: "set T' \<subseteq> set T"
  shows "button_inv cs LOADING (T' @ [(Suc lt, d, LoadingDelay)]) sub isub sto (Suc lt)"
proof (rule button_invI)
  let ?N = "T' @ [(Suc lt, d, LoadingDelay)]"
  have nb: "snd (snd x) \<noteq> BackToIdle" if "x \<in> set T" for x
    using button_invD(10)[OF inv that] states_distinct by auto
  have le: "fst x \<le> lt" if "x \<in> set T'" for x
    using button_invD(14)[OF inv, of x] that sub by blast
  show "cs \<noteq> []" "last cs = LOADING" "LOADING \<in> set BUTTON_STATES"
    "successively allowed_next cs" "count_list cs LOADING = sub" "isub = (LOADING = LOADING)"
    "sto \<noteq> Some 0"
    by (rule button_invD[OF inv])+
  show "LOADING = LOADING" if "x \<in> set ?N" for x by simp
  show "fst x = fst y"
    if "x \<in> set ?N" "y \<in> set ?N" "in_flight (snd (snd x))" "in_flight (snd (snd y))" for x y
    using that nf[of x] nf[of y] by auto
  show "sto = Some (fst x)" if "x \<in> set ?N" "snd (snd x) = BackToIdle" for x
    using that nb[of x] sub by auto
  show "LOADING = SUCCESS \<or> LOADING = ERROR" if "x \<in> set ?N" "snd (snd x) = BackToIdle" for x
    using that nb[of x] sub by auto
  show "snd (snd x) = BackToIdle" if "x \<in> set ?N" "sto = Some (fst x)" for x
  proof (cases "x \<in> set T'")
    case True
    then show ?thesis using button_invD(11)[OF inv, of x] that sub by blast
  next
    case False
    with that have "fst x = Suc lt" by auto
    with that button_invD(15)[OF inv, of "Suc lt"] show ?thesis by simp
  qed
  show "0 < fst x" if "x \<in> set ?N" for x
    using that button_invD(13)[OF inv, of x] sub by auto
  show "fst x \<le> Suc lt" if "x \<in> set ?N" for x
    using that le[of x] by auto
  show "t \<le> Suc lt" if "sto = Some t" for t
    using button_invD(15)[OF inv that] by simp
qed

lemma cleared_clearTimeout:
  "cleared (clearTimeout i p) = cancelled (stateTimeout p) (filter (\<lambda>x. fst x \<noteq> i) (timers p))"
  by (simp add: cleared_cancelled clearTimeout_def)

lemma handleSubmit_fields:
  assumes "\<not> (isSubmitting p \<or> isLoading p)"
  shows "state_changes (handleSubmit j p) = state_changes p @ [LOADING]"
    and "currentState (handleSubmit j p) = LOADING"
    and "timers (handleSubmit j p) =
           cancelled (stateTimeout p) (timers p) @
             [(Suc (last_timer p), now p + (1000 + j), SubmissionSettles (now p))]"
    and "submissions (handleSubmit j p) = Suc (submissions p)"
    and "isSubmitting (handleSubmit j p) = True"
    and "stateTimeout (handleSubmit j p) = (if stateTimeout p = Some 0 then Some 0 else None)"
    and "last_timer (handleSubmit j p) = Suc (last_timer p)"
  using assms
  by (simp_all add: handleSubmit_def Let_def simulateSubmission_def setTimeout_def
      setState_LOADING stateTimeout_LOADING cleared_cancelled)

lemma handleSuccess_fields:
  "state_changes (handleSuccess p) = state_changes p @ [SUCCESS]"
  "currentState (handleSuccess p) = SUCCESS"
  "timers (handleSuccess p) =
     cancelled (stateTimeout p) (timers p) @
       [(Suc (last_timer p), now p + SUCCESS_DISPLAY_DURATION, BackToIdle),
        (Suc (Suc (last_timer p)), now p + SUCCESS_DISPLAY_DURATION, ResetForm)]"
  "submissions (handleSuccess p) = submissions p"
  "isSubmitting (handleSuccess p) = isSubmitting p"
  "stateTimeout (handleSuccess p) = Some (Suc (last_timer p))"
  "last_timer (handleSuccess p) = Suc (Suc (last_timer p))"
  by (simp_all add: handleSuccess_def dispatchEvent_def setTimeout_def setState_SUCCESS
      cleared_cancelled duration_or_def SUCCESS_DISPLAY_DURATION_def)

lemma created_elements_setState: "created_elements (setState s opts p) = created_elements p"
  by (simp add: setState_def setIdleState_def setLoadingState_def setSuccessState_def
      setErrorState_def setTimeout_def clearTimeout_def Let_def split: option.splits)

lemma handleError_fields:
  "state_changes (handleError msg p) = state_changes p @ [ERROR]"
  "currentState (handleError msg p) = ERROR"
  "timers (handleError msg p) =
     cancelled (stateTimeout p) (timers p) @
       [(Suc (last_timer p), now p + ERROR_DISPLAY_DURATION, BackToIdle),
        (Suc (Suc (last_timer p)), now p + ERROR_DISPLAY_DURATION,
           RemoveErrorMessage (created_elements p))]"
  "submissions (handleError msg p) = submissions p"
  "isSubmitting (handleError msg p) = isSubmitting p"
  "stateTimeout (handleError msg p) = Some (Suc (last_timer p))"
  "last_timer (handleError msg p) = Suc (Suc (last_timer p))"
  by (simp_all add: handleError_def dispatchEvent_def showFormErrorMessage_def setTimeout_def
      setState_ERROR cleared_cancelled duration_or_def ERROR_DISPLAY_DURATION_def Let_def
      created_elements_setState)

lemma inv_initial: "inter_inv (ButtonStateManager b cs t)"
  unfolding inter_inv_def ButtonStateManager_def Let_def
  by (simp add: setState_IDLE stateTimeout_IDLE cleared_def)
     (simp add: button_inv_def BUTTON_STATES_def states_distinct)

lemma inv_tick: "inter_inv p \<Longrightarrow> inter_inv (tick d p)"
  by (simp add: inter_inv_def tick_def)

lemma inv_submit:
  assumes inv: "inter_inv p"
  shows "inter_inv (handleSubmit j p)"
proof (cases "isSubmitting p \<or> isLoading p")
  case True
  with inv show ?thesis by (simp add: handleSubmit_def)
next
  case False
  from inv have bi: "button_inv (state_changes p) (currentState p) (timers p) (submissions p)
      (isSubmitting p) (stateTimeout p) (last_timer p)"
    by (simp add: inter_inv_def)
  from False have st: "currentState p \<noteq> LOADING"
    by (simp add: isLoading_def)
  have s0: "stateTimeout p \<noteq> Some 0"
    by (rule button_invD(12)[OF bi])
  show ?thesis
    unfolding inter_inv_def
    using button_inv_submit[OF bi st, of "now p + (1000 + j)" "now p"] s0
    by (simp add: handleSubmit_fields[OF False])
qed

lemma due_callback_pending:
  assumes "due_callback i p = Some cb"
  shows "\<exists>due. (i, due, cb) \<in> set (timers p)"
proof -
  from assms obtain due where "map_of (timers p) i = Some (due, cb)"
    by (auto simp add: due_callback_def split: option.splits if_splits)
  then have "(i, due, cb) \<in> set (timers p)"
    by (rule map_of_SomeD)
  then show ?thesis ..
qed

lemma inv_callback:
  assumes inv: "inter_inv p" and pending: "(i, due, cb) \<in> set (timers p)"
  shows "inter_inv (inter_callback_run cb ok (clearTimeout i p))"
proof -
  let ?q = "clearTimeout i p"
  let ?T1 = "filter (\<lambda>x. fst x \<noteq> i) (timers p)"
  from inv have bi: "button_inv (state_changes p) (currentState p) (timers p) (submissions p)
      (isSubmitting p) (stateTimeout p) (last_timer p)"
    by (simp add: inter_inv_def)
  have sub: "set ?T1 \<subseteq> set (timers p)" by auto
  have bi': "button_inv (state_changes p) (currentState p) ?T1 (submissions p)
      (isSubmitting p) (stateTimeout p) (last_timer p)"
    by (rule button_inv_subset[OF bi sub])
  have q: "state_changes ?q = state_changes p" "currentState ?q = currentState p"
    "timers ?q = ?T1" "submissions ?q = submissions p" "isSubmitting ?q = isSubmitting p"
    "stateTimeout ?q = stateTimeout p" "last_timer ?q = last_timer p" "now ?q = now p"
    by (simp_all add: clearTimeout_def)
  have s0: "stateTimeout p \<noteq> Some 0"
    by (rule button_invD(12)[OF bi])
  have settled_ok: "inter_inv (submission_finally (handleSuccess ?q))"
    and settled_bad: "inter_inv (submission_finally (handleError msg ?q))"
    and delayed: "inter_inv (setTimeout LoadingDelay d ?q)"
    if fl: "in_flight cb" for msg d
  proof -
    have st: "currentState p = LOADING"
      using button_invD(7)[OF bi pending] fl by simp
    have nf: "\<not> in_flight (snd (snd y))" if "y \<in> set ?T1" for y
    proof
      assume "in_flight (snd (snd y))"
      with that fl have "fst (i, due, cb) = fst y"
        using button_invD(8)[OF bi pending, of y] by simp
      with that show False by simp
    qed
    have biL: "button_inv (state_changes p) LOADING ?T1 (submissions p)
      (isSubmitting p) (stateTimeout p) (last_timer p)"
      using bi' st by simp
    show "inter_inv (submission_finally (handleSuccess ?q))"
      unfolding inter_inv_def
      using button_inv_settled[OF biL nf, of SUCCESS ResetForm "cancelled (stateTimeout p) ?T1"
          "now p + SUCCESS_DISPLAY_DURATION" "now p + SUCCESS_DISPLAY_DURATION"]
        cancelled_subset[of "stateTimeout p" ?T1]
      by (simp add: submission_finally_def handleSuccess_fields q in_flight_def)
    show "inter_inv (submission_finally (handleError msg ?q))"
      unfolding inter_inv_def
      using button_inv_settled[OF biL nf, of ERROR "RemoveErrorMessage (created_elements p)"
          "cancelled (stateTimeout p) ?T1"
          "now p + ERROR_DISPLAY_DURATION" "now p + ERROR_DISPLAY_DURATION"]
        cancelled_subset[of "stateTimeout p" ?T1]
      by (simp add: submission_finally_def handleError_fields q in_flight_def clearTimeout_def)
    have biL0: "button_inv (state_changes p) LOADING (timers p) (submissions p)
      (isSubmitting p) (stateTimeout p) (last_timer p)"
      using bi st by simp
    show "inter_inv (setTimeout LoadingDelay d ?q)"
      unfolding inter_inv_def
      using button_inv_delay[OF biL0 nf sub, of "now p + d"] st
      by (simp add: setTimeout_def q)
  qed
  show ?thesis
  proof (cases cb)
    case BackToIdle
    have st: "currentState p = SUCCESS \<or> currentState p = ERROR"
      using button_invD(10)[OF bi pending] BackToIdle by simp
    have sto: "stateTimeout p = Some i"
      using button_invD(9)[OF bi pending] BackToIdle by simp
    have nb: "snd (snd y) \<noteq> BackToIdle" if "y \<in> set ?T1" for y
    proof
      assume "snd (snd y) = BackToIdle"
      with that have "stateTimeout p = Some (fst y)"
        using button_invD(9)[OF bi, of y] by simp
      with sto that show False by simp
    qed
    show ?thesis
      unfolding inter_inv_def
      using button_inv_idle[OF bi' st nb cancelled_subset[of "stateTimeout p" ?T1]] BackToIdle s0
      by (simp add: inter_callback_run_def setState_IDLE stateTimeout_IDLE q
          cleared_clearTimeout)
  next
    case (SubmissionSettles s)
    then have "in_flight cb" by (simp add: in_flight_def)
    from settled_ok[OF this] settled_bad[OF this] delayed[OF this] SubmissionSettles
    show ?thesis
      by (simp add: inter_callback_run_def Let_def)
  next
    case LoadingDelay
    then have "in_flight cb" by (simp add: in_flight_def)
    from settled_ok[OF this] LoadingDelay show ?thesis
      by (simp add: inter_callback_run_def)
  next
    case ResetForm
    with bi' show ?thesis
      by (simp add: inter_inv_def inter_callback_run_def clearFormErrors_def q)
  next
    case (RemoveErrorMessage k)
    with bi' show ?thesis
      by (simp add: inter_inv_def inter_callback_run_def q)
  qed
qed

lemma inv_step: "inter_inv p \<Longrightarrow> inter_inv (inter_step e p)"
proof (cases e)
  case (SubmitForm j)
  assume "inter_inv p"
  with SubmitForm show ?thesis
    by (simp add: inter_step_def inv_submit)
next
  case (Wait d)
  assume "inter_inv p"
  with Wait show ?thesis
    by (simp add: inter_step_def inv_tick)
next
  case (Timeout i ok)
  assume inv: "inter_inv p"
  show ?thesis
  proof (cases "due_callback i p")
    case None
    with Timeout inv show ?thesis by (simp add: inter_step_def)
  next
    case (Some cb)
    from due_callback_pending[OF Some] obtain due where "(i, due, cb) \<in> set (timers p)" ..
    from inv_callback[OF inv this] Timeout Some show ?thesis
      by (simp add: inter_step_def)
  qed
qed

lemma inv_run: "inter_inv p \<Longrightarrow> inter_inv (inter_run es p)"
  unfolding inter_run_def
  by (induction es arbitrary: p) (simp_all add: inv_step)

text \<open>
  In the interactions script a pending reset timer is always the one recorded in
  \<open>stateTimeout\<close>, which every \<open>setState\<close> cancels first, and the button is then in
  the success or the error state: no stale timer can put a newer state back to idle.
\<close>

lemma pending_reset_is_current:
  assumes "p = inter_run es (ButtonStateManager b cs t)"
    and "(i, due, BackToIdle) \<in> set (timers p)"
  shows "stateTimeout p = Some i \<and> (currentState p = SUCCESS \<or> currentState p = ERROR)"
proof -
  have "inter_inv p"
    unfolding assms(1) by (rule inv_run[OF inv_initial])
  then have bi: "button_inv (state_changes p) (currentState p) (timers p) (submissions p)
      (isSubmitting p) (stateTimeout p) (last_timer p)"
    by (simp add: inter_inv_def)
  from button_invD(9)[OF bi assms(2)] button_invD(10)[OF bi assms(2)] show ?thesis
    by simp
qed

lemma cancelled_distinct: "distinct (map fst T) \<Longrightarrow> distinct (map fst (cancelled sto T))"
  by (simp add: cancelled_def distinct_map_filter split: option.splits)

lemma fresh_id_distinct:
  assumes "distinct (map fst T)" and "\<And>x. x \<in> set T \<Longrightarrow> fst x \<le> lt"
  shows "distinct (map fst (T @ [(Suc lt, d, cb)]))"
proof -
  have "Suc lt \<notin> fst ` set T"
    using assms(2) by fastforce
  with assms(1) show ?thesis by simp
qed

lemma fresh_ids_distinct:
  assumes "distinct (map fst T)" and "\<And>x. x \<in> set T \<Longrightarrow> fst x \<le> lt"
  shows "distinct (map fst (T @ [(Suc lt, d1, cb1), (Suc (Suc lt), d2, cb2)]))"
proof -
  have "Suc lt \<notin> fst ` set T" "Suc (Suc lt) \<notin> fst ` set T"
    using assms(2) by fastforce+
  with assms(1) show ?thesis by simp
qed

lemma same_id_same_timer:
  assumes "distinct (map fst T)" and "x \<in> set T" and "y \<in> set T" and "fst x = fst y"
  shows "x = y"
  using assms by (meson distinct_map inj_onD)

lemma flight_submit:
  assumes inv: "inter_inv p" and fl: "flight_inv (currentState p) (timers p)"
  shows "flight_inv (currentState (handleSubmit j p)) (timers (handleSubmit j p))"
proof (cases "isSubmitting p \<or> isLoading p")
  case True
  with fl show ?thesis by (simp add: handleSubmit_def)
next
  case False
  from inv have bi: "button_inv (state_changes p) (currentState p) (timers p) (submissions p)
      (isSubmitting p) (stateTimeout p) (last_timer p)"
    by (simp add: inter_inv_def)
  let ?T = "cancelled (stateTimeout p) (timers p)"
  from fl have "distinct (map fst ?T)"
    by (simp add: flight_inv_def cancelled_distinct)
  moreover have "fst x \<le> last_timer p" if "x \<in> set ?T" for x
    using button_invD(14)[OF bi, of x] that cancelled_subset[of "stateTimeout p" "timers p"]
    by blast
  ultimately have "distinct (map fst (?T @
      [(Suc (last_timer p), now p + (1000 + j), SubmissionSettles (now p))]))"
    by (rule fresh_id_distinct)
  then show ?thesis
    by (simp add: flight_inv_def handleSubmit_fields[OF False] in_flight_def)
qed

lemma flight_callback:
  assumes inv: "inter_inv p" and fl: "flight_inv (currentState p) (timers p)"
    and pending: "(i, due, cb) \<in> set (timers p)"
  shows "flight_inv (currentState (inter_callback_run cb ok (clearTimeout i p)))
           (timers (inter_callback_run cb ok (clearTimeout i p)))"
proof -
  let ?q = "clearTimeout i p"
  let ?T1 = "filter (\<lambda>x. fst x \<noteq> i) (timers p)"
  from inv have bi: "button_inv (state_changes p) (currentState p) (timers p) (submissions p)
      (isSubmitting p) (stateTimeout p) (last_timer p)"
    by (simp add: inter_inv_def)
  have q: "currentState ?q = currentState p" "timers ?q = ?T1"
    "stateTimeout ?q = stateTimeout p" "last_timer ?q = last_timer p" "now ?q = now p"
    by (simp_all add: clearTimeout_def)
  from fl have d: "distinct (map fst (timers p))"
    by (simp add: flight_inv_def)
  then have d1: "distinct (map fst ?T1)"
    by (simp add: distinct_map_filter)
  have le1: "fst x \<le> last_timer p" if "x \<in> set ?T1" for x
    using button_invD(14)[OF bi, of x] that by simp
  let ?C = "cancelled (stateTimeout p) ?T1"
  have dc: "distinct (map fst ?C)"
    using d1 by (rule cancelled_distinct)
  have lec: "fst x \<le> last_timer p" if "x \<in> set ?C" for x
    using le1[of x] that cancelled_subset[of "stateTimeout p" ?T1] by blast
  have settled_ok: "flight_inv (currentState (submission_finally (handleSuccess ?q)))
      (timers (submission_finally (handleSuccess ?q)))"
    using fresh_ids_distinct[OF dc lec]
    by (simp add: flight_inv_def submission_finally_def handleSuccess_fields q states_distinct)
  have settled_bad: "flight_inv (currentState (submission_finally (handleError msg ?q)))
      (timers (submission_finally (handleError msg ?q)))" for msg
    using fresh_ids_distinct[OF dc lec]
    by (simp add: flight_inv_def submission_finally_def handleError_fields q states_distinct)
  have delayed: "flight_inv (currentState (setTimeout LoadingDelay n ?q))
      (timers (setTimeout LoadingDelay n ?q))" for n
    using fresh_id_distinct[OF d1 le1]
    by (simp add: flight_inv_def setTimeout_def q in_flight_def)
  have kept: "flight_inv (currentState p) ?T1" if nf: "\<not> in_flight cb"
  proof -
    have "\<exists>x \<in> set ?T1. in_flight (snd (snd x))" if "currentState p = LOADING"
    proof -
      from fl that obtain x where x: "x \<in> set (timers p)" "in_flight (snd (snd x))"
        by (auto simp add: flight_inv_def)
      have "fst x \<noteq> i"
      proof
        assume "fst x = i"
        with same_id_same_timer[OF d x(1) pending] have "x = (i, due, cb)" by simp
        with x(2) nf show False by simp
      qed
      with x have "x \<in> set ?T1" by simp
      with x(2) show ?thesis by (rule_tac x = x in bexI)
    qed
    with d1 show ?thesis by (simp add: flight_inv_def)
  qed
  show ?thesis
  proof (cases cb)
    case BackToIdle
    with dc show ?thesis
      by (simp add: inter_callback_run_def flight_inv_def setState_IDLE q
          cleared_clearTimeout states_distinct)
  next
    case (SubmissionSettles s)
    with settled_ok settled_bad delayed show ?thesis
      by (simp add: inter_callback_run_def Let_def)
  next
    case LoadingDelay
    with settled_ok show ?thesis
      by (simp add: inter_callback_run_def)
  next
    case ResetForm
    then have "\<not> in_flight cb" by (simp add: in_flight_def)
    from kept[OF this] ResetForm show ?thesis
      by (simp add: inter_callback_run_def clearFormErrors_def q)
  next
    case (RemoveErrorMessage k)
    then have "\<not> in_flight cb" by (simp add: in_flight_def)
    from kept[OF this] RemoveErrorMessage show ?thesis
      by (simp add: inter_callback_run_def q)
  qed
qed

lemma reachable_initial: "reachable_inv (ButtonStateManager b cs t)"
proof -
  have "timers (ButtonStateManager b cs t) = []"
    by (simp add: ButtonStateManager_def Let_def setState_IDLE cleared_def)
  moreover have "currentState (ButtonStateManager b cs t) = IDLE"
    by (simp add: ButtonStateManager_def Let_def setState_IDLE)
  ultimately show ?thesis
    by (simp add: reachable_inv_def inv_initial flight_inv_def states_distinct)
qed

lemma reachable_step: "reachable_inv p \<Longrightarrow> reachable_inv (inter_step e p)"
proof -
  assume r: "reachable_inv p"
  then have inv: "inter_inv p" and fl: "flight_inv (currentState p) (timers p)"
    by (simp_all add: reachable_inv_def)
  have "flight_inv (currentState (inter_step e p)) (timers (inter_step e p))"
  proof (cases e)
    case (SubmitForm j)
    with flight_submit[OF inv fl] fl show ?thesis
      by (simp add: inter_step_def)
  next
    case (Wait d)
    with fl show ?thesis
      by (simp add: inter_step_def tick_def)
  next
    case (Timeout i ok)
    show ?thesis
    proof (cases "due_callback i p")
      case None
      with Timeout fl show ?thesis by (simp add: inter_step_def)
    next
      case (Some cb)
      from due_callback_pending[OF Some] obtain due where "(i, due, cb) \<in> set (timers p)" ..
      from flight_callback[OF inv fl this] Timeout Some show ?thesis
        by (simp add: inter_step_def)
    qed
  qed
  with inv_step[OF inv] show ?thesis
    by (simp add: reachable_inv_def)
qed

lemma reachable_run: "reachable_inv p \<Longrightarrow> reachable_inv (inter_run es p)"
  unfolding inter_run_def
  by (induction es arbitrary: p) (simp_all add: reachable_step)

lemma loading_iff_in_flight:
  assumes "reachable_inv p"
  shows "(currentState p = LOADING) = (\<exists>x \<in> set (timers p). in_flight (snd (snd x)))"
proof -
  from assms have bi: "button_inv (state_changes p) (currentState p) (timers p) (submissions p)
      (isSubmitting p) (stateTimeout p) (last_timer p)"
    and fl: "flight_inv (currentState p) (timers p)"
    by (simp_all add: reachable_inv_def inter_inv_def)
  from button_invD(7)[OF bi] fl show ?thesis
    by (auto simp add: flight_inv_def)
qed

lemmas inter_eval =
  inter_run_def inter_step_def handleSubmit_def isLoading_def simulateSubmission_def
  setTimeout_def clearTimeout_def tick_def due_callback_def inter_callback_run_def
  submission_finally_def handleSuccess_def handleError_def showFormErrorMessage_def
  dispatchEvent_def clearFormErrors_def setState_def setIdleState_def setLoadingState_def
  setSuccessState_def setErrorState_def ButtonStateManager_def no_options_def
  example_submit_button_def Let_def state_names BUTTON_STATES_def
  LOADING_MIN_DURATION_def SUCCESS_DISPLAY_DURATION_def ERROR_DISPLAY_DURATION_def
  duration_or_def text_or_def

lemma setState_keeps_content:
  "originalContent (setState s opts p) = originalContent p"
  "attributes (button (setState s opts p)) ''data-original-content'' =
     attributes (button p) ''data-original-content''"
  by (simp_all add: setState_def setIdleState_def setLoadingState_def
      setSuccessState_def setErrorState_def setTimeout_def clearTimeout_def Let_def
      split: option.splits)

lemma stored_content_setState: "stored_content (setState s opts p) = stored_content p"
  by (simp add: stored_content_def setState_keeps_content)

lemma stored_content_step: "stored_content (inter_step e p) = stored_content p"
proof -
  have cb: "stored_content (inter_callback_run c ok q) = stored_content q" for c ok q
    by (cases c)
       (simp_all add: inter_callback_run_def submission_finally_def handleSuccess_def
          handleError_def showFormErrorMessage_def dispatchEvent_def clearFormErrors_def
          setTimeout_def Let_def setState_keeps_content stored_content_def)
  have ct: "stored_content (clearTimeout i p) = stored_content p" for i
    by (simp add: stored_content_def clearTimeout_def)
  show ?thesis
  proof (cases e)
    case (SubmitForm j)
    then show ?thesis
      by (simp add: inter_step_def handleSubmit_def simulateSubmission_def setTimeout_def
          Let_def setState_keeps_content stored_content_def)
  next
    case (Wait d)
    then show ?thesis
      by (simp add: inter_step_def tick_def stored_content_def)
  next
    case (Timeout i ok)
    then show ?thesis
      by (simp add: inter_step_def cb ct split: option.splits)
  qed
qed

lemma stored_content_run: "stored_content (inter_run es p) = stored_content p"
  unfolding inter_run_def
  by (induction es arbitrary: p) (simp_all add: stored_content_step)

lemma stored_content_initial:
  "stored_content (ButtonStateManager b cs t) =
     (innerHTML b,
      Some (case attributes b ''data-original-content'' of None \<Rightarrow> innerHTML b | Some c \<Rightarrow> c))"
  by (simp add: ButtonStateManager_def Let_def stored_content_setState)
     (simp add: stored_content_def split: option.splits)

lemma setState_IDLE_button:
  "innerHTML (button (setState IDLE opts p)) =
     (case snd (stored_content p) of
        None \<Rightarrow> fst (stored_content p)
      | Some c \<Rightarrow> if c = [] then fst (stored_content p) else c)"
  "\<not> disabled (button (setState IDLE opts p))"
  "attributes (button (setState IDLE opts p)) ''aria-busy'' = Some (js ''false'')"
  by (simp_all add: setState_def setIdleState_def clearTimeout_def Let_def stored_content_def
      split: option.splits)

text \<open>
  C10 (as amended). At any point of the page's life, \<open>setState(s)\<close> for \<open>s\<close> one of
  loading, success, error followed by \<open>setState(idle)\<close> puts back the content kept in the
  button's \<open>data-original-content\<close> attribute, which is the inner content captured at
  construction whenever the button had no such attribute (or an empty one) before;
  it re-enables the button and sets \<open>aria-busy\<close> to \<open>false\<close>.
\<close>

theorem idle_round_trip:
  assumes "p = inter_run es (ButtonStateManager b cs t)"
    and "s \<in> {LOADING, SUCCESS, ERROR}"
  shows "innerHTML (button (setState IDLE no_options (setState s opts p))) = restored_content b
       \<and> (attributes b ''data-original-content'' = None \<longrightarrow>
            innerHTML (button (setState IDLE no_options (setState s opts p))) = innerHTML b)
       \<and> \<not> disabled (button (setState IDLE no_options (setState s opts p)))
       \<and> attributes (button (setState IDLE no_options (setState s opts p))) ''aria-busy''
            = Some (js ''false'')
       \<and> currentState (setState IDLE no_options (setState s opts p)) = IDLE"
proof -
  have "stored_content (setState s opts p) =
     (innerHTML b,
      Some (case attributes b ''data-original-content'' of None \<Rightarrow> innerHTML b | Some c \<Rightarrow> c))"
    by (simp add: assms(1) stored_content_setState stored_content_run stored_content_initial)
  then have "innerHTML (button (setState IDLE no_options (setState s opts p))) = restored_content b"
    by (simp add: setState_IDLE_button restored_content_def split: option.splits)
  then show ?thesis
    by (simp add: setState_IDLE_button setState_IDLE restored_content_def)
qed

lemma state_changes_step: "\<exists>xs. state_changes (inter_step e p) = state_changes p @ xs"
proof -
  have cb: "\<exists>xs. state_changes (inter_callback_run c ok q) = state_changes q @ xs" for c ok q
    by (cases c)
       (simp_all add: inter_callback_run_def submission_finally_def handleSuccess_fields
          handleError_fields setState_IDLE clearFormErrors_def setTimeout_def Let_def)
  have hs: "\<exists>xs. state_changes (handleSubmit j p) = state_changes p @ xs" for j
    by (cases "isSubmitting p \<or> isLoading p")
       (simp_all add: handleSubmit_fields, simp add: handleSubmit_def)
  show ?thesis
  proof (cases e)
    case (SubmitForm j)
    with hs show ?thesis by (simp add: inter_step_def)
  next
    case (Wait d)
    then show ?thesis by (simp add: inter_step_def tick_def)
  next
    case (Timeout i ok)
    show ?thesis
    proof (cases "due_callback i p")
      case None
      with Timeout show ?thesis by (simp add: inter_step_def)
    next
      case (Some c)
      with Timeout cb[of c ok "clearTimeout i p"] show ?thesis
        by (simp add: inter_step_def clearTimeout_def)
    qed
  qed
qed

lemma state_changes_run: "\<exists>xs. state_changes (inter_run es p) = state_changes p @ xs"
proof (induction es arbitrary: p)
  case Nil
  then show ?case by (simp add: inter_run_def)
next
  case (Cons e es)
  from Cons[of "inter_step e p"] state_changes_step[of e p] show ?case
    by (auto simp add: inter_run_def)
qed

lemma state_changes_initial: "state_changes (ButtonStateManager b cs t) = [IDLE]"
  by (simp add: ButtonStateManager_def Let_def setState_IDLE)

text \<open>
  C1 (as amended). In every run of the interactions script from its initialisation, the
  logged state changes start with idle and each change is an allowed one: loading is
  entered by a submission, from idle and also from success or error; success and error are
  entered from loading only; idle is entered from success or error only. Loading has been
  entered exactly once per simulated submission, \<open>isSubmitting\<close> holds exactly in the
  loading state, and a submit event is ignored in the loading state and otherwise starts
  one submission and enters loading.
\<close>

theorem button_state_machine:
  assumes "p = inter_run es (ButtonStateManager b cs t)"
  shows "hd (state_changes p) = IDLE
       \<and> last (state_changes p) = currentState p
       \<and> successively allowed_next (state_changes p)
       \<and> count_list (state_changes p) LOADING = submissions p
       \<and> isSubmitting p = (currentState p = LOADING)
       \<and> (\<forall>j < 2000.
            if currentState p = LOADING then inter_step (SubmitForm j) p = p
            else state_changes (inter_step (SubmitForm j) p) = state_changes p @ [LOADING]
               \<and> submissions (inter_step (SubmitForm j) p) = Suc (submissions p))"
proof -
  have "inter_inv p"
    unfolding assms by (rule inv_run[OF inv_initial])
  then have bi: "button_inv (state_changes p) (currentState p) (timers p) (submissions p)
      (isSubmitting p) (stateTimeout p) (last_timer p)"
    by (simp add: inter_inv_def)
  from state_changes_run[of es "ButtonStateManager b cs t"]
  have hd: "hd (state_changes p) = IDLE"
    by (auto simp add: assms state_changes_initial)
  have sub: "if currentState p = LOADING then inter_step (SubmitForm j) p = p
            else state_changes (inter_step (SubmitForm j) p) = state_changes p @ [LOADING]
               \<and> submissions (inter_step (SubmitForm j) p) = Suc (submissions p)"
    if "j < 2000" for j
  proof (cases "currentState p = LOADING")
    case True
    then show ?thesis
      by (simp add: inter_step_def handleSubmit_def isLoading_def)
  next
    case False
    with button_invD(6)[OF bi] have "\<not> (isSubmitting p \<or> isLoading p)"
      by (simp add: isLoading_def)
    from handleSubmit_fields(1,4)[OF this] False that show ?thesis
      by (simp add: inter_step_def)
  qed
  from hd sub button_invD(2,4,5,6)[OF bi] show ?thesis
    by blast
qed

lemma handleFormSubmit_keeps_loading:
  assumes "submit_button q = Some b" and "''loading'' \<in> classList b"
  shows "\<exists>b'. submit_button (handleFormSubmit q) = Some b' \<and> ''loading'' \<in> classList b'"
  using assms
  by (simp add: handleFormSubmit_def Let_def case_prod_unfold clearAllErrors_def
      simulateFormSubmission_def setTimeout_def setButtonState_def)

text \<open>
  C2 (as amended). In the interactions script, in every state reached from its
  initialisation, a submit event that arrives while a simulated call is in flight, while
  \<open>isSubmitting\<close> is set or while the button is loading finds the button in the
  loading state and changes nothing: no second simulated call, the state stays loading.
  The handler of the main script has no such guard; there the button stays in the loading
  state after a second submit event.
\<close>

theorem resubmit_while_loading:
  assumes "p = inter_run es (ButtonStateManager b0 cs t)"
  shows "((\<exists>x \<in> set (timers p). in_flight (snd (snd x))) \<or> isSubmitting p \<or> isLoading p \<longrightarrow>
            currentState p = LOADING \<and> inter_step (SubmitForm j) p = p)
       \<and> (submit_button q = Some b \<and> ''loading'' \<in> classList b \<longrightarrow>
            (\<exists>b'. submit_button (form_step Submit q) = Some b' \<and> ''loading'' \<in> classList b'))"
proof -
  have r: "reachable_inv p"
    unfolding assms by (rule reachable_run[OF reachable_initial])
  then have bi: "button_inv (state_changes p) (currentState p) (timers p) (submissions p)
      (isSubmitting p) (stateTimeout p) (last_timer p)"
    by (simp add: reachable_inv_def inter_inv_def)
  have guard: "inter_step (SubmitForm j) p = p" if "currentState p = LOADING"
    using that by (simp add: inter_step_def handleSubmit_def isLoading_def)
  have "currentState p = LOADING"
    if "(\<exists>x \<in> set (timers p). in_flight (snd (snd x))) \<or> isSubmitting p \<or> isLoading p"
    using that loading_iff_in_flight[OF r] button_invD(6)[OF bi]
    by (auto simp add: isLoading_def)
  with guard handleFormSubmit_keeps_loading[of q b] show ?thesis
    by (simp add: form_step_def)
qed

lemmas form_eval =
  form_run_def form_step_def example_form_def example_field_def example_button_def
  handleFormSubmit_def clearAllErrors_def
  validateForm_def required_selector_def validateField_def VALIDATION_RULES_def js_def
  trim_def isWhiteSpace_def name_pattern_def name_class_def email_pattern_def email_class_def
  phone_pattern_def phone_class_def
  clearFieldError_def showFieldError_def simulateFormSubmission_def setTimeout_def Let_def
  setButtonState_def decimal_values tick_def due_callback_def clearTimeout_def
  form_callback_run_def submission_resolved_def submission_rejected_def showFormError_def
  FORM_SUCCESS_DURATION_def

theorem button_state_machine_witness:
  "state_changes (inter_run [SubmitForm 250, Wait 1250, Timeout 1 True]
      (ButtonStateManager example_submit_button [] 0)) = [IDLE, LOADING, SUCCESS]
   \<and> successively allowed_next [IDLE, LOADING, SUCCESS]
   \<and> currentState (inter_run [SubmitForm 250, Wait 1250, Timeout 1 True]
      (ButtonStateManager example_submit_button [] 0)) = SUCCESS
   \<and> submissions (inter_run [SubmitForm 250, Wait 1250, Timeout 1 True]
      (ButtonStateManager example_submit_button [] 0)) = 1
   \<and> submissions (inter_step (SubmitForm 0)
        (inter_run [SubmitForm 250, Wait 1250, Timeout 1 True]
          (ButtonStateManager example_submit_button [] 0))) = 2"
proof -
  let ?p = "inter_run [SubmitForm 250, Wait 1250, Timeout 1 True]
      (ButtonStateManager example_submit_button [] 0)"
  have sc: "state_changes ?p = [IDLE, LOADING, SUCCESS]"
    by (simp add: inter_eval)
  have cs: "currentState ?p = SUCCESS"
    by (simp add: inter_eval)
  have sb: "submissions ?p = 1"
    by (simp add: inter_eval)
  from button_state_machine[OF refl, of "[SubmitForm 250, Wait 1250, Timeout 1 True]"
      example_submit_button "[]" 0] sc cs sb
  show ?thesis
    by (simp add: states_distinct)
qed

text \<open>
  The claim as stated fails: after a failed submission the button is in the error state
  (enabled, reading \<open>Failed - Try Again\<close>), and a submit event then starts a second
  submission, from error and not from idle.
\<close>

theorem resubmit_from_error_counterexample:
  "currentState (inter_run [SubmitForm 0, Wait 1000, Timeout 1 False]
      (ButtonStateManager example_submit_button [] 0)) = ERROR
   \<and> state_changes (inter_run [SubmitForm 0, Wait 1000, Timeout 1 False, SubmitForm 0]
      (ButtonStateManager example_submit_button [] 0)) = [IDLE, LOADING, ERROR, LOADING]
   \<and> submissions (inter_run [SubmitForm 0, Wait 1000, Timeout 1 False, SubmitForm 0]
      (ButtonStateManager example_submit_button [] 0)) = 2"
  by (simp add: inter_eval)

theorem resubmit_while_loading_witness:
  "(\<exists>x \<in> set (timers (inter_run [SubmitForm 0] (ButtonStateManager example_submit_button [] 0))).
       in_flight (snd (snd x)))
   \<and> currentState (inter_run [SubmitForm 0] (ButtonStateManager example_submit_button [] 0))
       = LOADING
   \<and> inter_step (SubmitForm 5)
        (inter_run [SubmitForm 0] (ButtonStateManager example_submit_button [] 0))
       = inter_run [SubmitForm 0] (ButtonStateManager example_submit_button [] 0)
   \<and> (\<exists>b. submit_button (form_run [Submit] (example_form ''Jane Doe'' ''555 1234'')) = Some b
          \<and> ''loading'' \<in> classList b)
   \<and> (\<exists>b'. submit_button (form_step Submit
              (form_run [Submit] (example_form ''Jane Doe'' ''555 1234''))) = Some b'
          \<and> ''loading'' \<in> classList b')"
proof -
  let ?p = "inter_run [SubmitForm 0] (ButtonStateManager example_submit_button [] 0)"
  let ?q = "form_run [Submit] (example_form ''Jane Doe'' ''555 1234'')"
  have l: "\<exists>x \<in> set (timers ?p). in_flight (snd (snd x))"
    by (simp add: inter_eval in_flight_def)
  obtain b where b: "submit_button ?q = Some b" "''loading'' \<in> classList b"
    by (simp add: form_eval)
  from resubmit_while_loading[OF refl, of "[SubmitForm 0]" example_submit_button "[]" 0 5 ?q b]
    l b show ?thesis
    by blast
qed

text \<open>
  The claim as stated fails in the main script: a second submit event delivered while the
  button is loading starts a second simulated submission.
\<close>

theorem second_submit_main_counterexample:
  "sim_calls (form_run [Submit] (example_form ''Jane Doe'' ''555 1234'')) = 1
   \<and> ''loading'' \<in> classList (the (submit_button
         (form_run [Submit] (example_form ''Jane Doe'' ''555 1234''))))
   \<and> sim_calls (form_run [Submit, Submit] (example_form ''Jane Doe'' ''555 1234'')) = 2
   \<and> map (\<lambda>t. snd (snd t)) (timers (form_run [Submit, Submit] (example_form ''Jane Doe'' ''555 1234'')))
       = [SimulatedSubmission, SimulatedSubmission]"
  by (simp add: form_eval)

text \<open>
  C5. The main script never cancels its reset timers. After a failed submission the timer
  that resets the button is pending for 3000 ms; a new submission within that time puts the
  button into the loading state, and the stale timer then puts it back to the default
  state (enabled, original text) while the new submission is still in flight.
\<close>

theorem stale_reset_in_main_script:
  "(let before = form_run [Submit, Tick 2000, TimerFires 1 False, Tick 1500, Submit, Tick 1500]
                   (example_form ''Jane Doe'' ''555 1234'');
        after = form_step (TimerFires 2 True) before
    in ''loading'' \<in> classList (the (submit_button before))
     \<and> disabled (the (submit_button before))
     \<and> timers before = [(2, 5000, DefaultAfterError), (3, 5500, SimulatedSubmission)]
     \<and> now before = 5000
     \<and> ''loading'' \<notin> classList (the (submit_button after))
     \<and> \<not> disabled (the (submit_button after))
     \<and> innerHTML (the (submit_button after)) = js ''<span>Send Message</span>''
     \<and> timers after = [(3, 5500, SimulatedSubmission)])"
  by (simp add: form_eval)

theorem idle_round_trip_witness:
  "LOADING \<in> {LOADING, SUCCESS, ERROR}
   \<and> attributes example_submit_button ''data-original-content'' = None
   \<and> innerHTML (button (setState IDLE no_options (setState LOADING no_options
        (inter_run [] (ButtonStateManager example_submit_button [] 0))))) = js ''Send Message''
   \<and> \<not> disabled (button (setState IDLE no_options (setState LOADING no_options
        (inter_run [] (ButtonStateManager example_submit_button [] 0)))))"
proof -
  have a: "attributes example_submit_button ''data-original-content'' = None"
    "innerHTML example_submit_button = js ''Send Message''"
    by (simp_all add: example_submit_button_def)
  have s: "LOADING \<in> {LOADING, SUCCESS, ERROR}" by simp
  from idle_round_trip[OF refl s, of no_options "[]" example_submit_button "[]" 0] a s
  show ?thesis
    by (simp add: restored_content_def)
qed

text \<open>
  The claim as stated fails for a button that already carries a
  \<open>data-original-content\<close> attribute: idle puts back the attribute's value, not the
  inner content captured at construction.
\<close>

theorem idle_round_trip_counterexample:
  "innerHTML example_marked_button = js ''Send Message''
   \<and> originalContent (ButtonStateManager example_marked_button [] 0) = js ''Send Message''
   \<and> innerHTML (button (setState IDLE no_options (setState LOADING no_options
        (ButtonStateManager example_marked_button [] 0)))) = js ''Submit''"
  by (simp add: inter_eval example_marked_button_def js_def)

section \<open>Properties of the reveal animations\<close>

lemmas anim_eval =
  example_scroll_page_def example_reveal_page_def example_card_def
  initScrollAnimations_def shouldDisableAnimations_def querySelectorAll_def
  ANIMATED_ELEMENTS_def hide_element_def ANIMATION_STAGGER_def STAGGER_DELAY_def
  scroll_run_def scroll_step_def scroll_callback_run_def animation_delay_def parseInt_def
  isDigit_def isWhiteSpace_def js_def decimal_values
  setTimeout_def clearTimeout_def tick_def due_callback_def Let_def
  reveal_run_def reveal_step_def reveal_callback_run_def animations_init_def init_group_def
  init_single_def initAboutSectionAnimations_def initContactSectionAnimations_def
  prepareElements_def prepareElement_def createObserver_def observe_def unobserve_def
  markAsAnimated_def animateElement_def isAnimated_def cleanup_def
  handleMotionPreferenceChange_def upt_rec

text \<open>
  C6. In the main script the watcher never stops observing: on a page of three course
  cards, the second card is revealed 100 ms after its notification and is still among the
  observed targets, so a later notification for it is delivered and sets another reveal
  timer.
\<close>

theorem watcher_keeps_observing_in_main_script:
  "observed (initScrollAnimations (example_scroll_page False)) = {0, 1, 2}
   \<and> attributes (page_elements (initScrollAnimations (example_scroll_page False)) ! 1)
        ''data-animation-delay'' = Some (js ''100'')
   \<and> style (page_elements (scroll_run [Notified [(1, True)], Elapsed 100, Fired 1]
        (initScrollAnimations (example_scroll_page False))) ! 1) ''opacity'' = Some ''1''
   \<and> observed (scroll_run [Notified [(1, True)], Elapsed 100, Fired 1]
        (initScrollAnimations (example_scroll_page False))) = {0, 1, 2}
   \<and> map (\<lambda>t. snd (snd t))
        (timers (scroll_run [Notified [(1, True)], Elapsed 100, Fired 1, Notified [(1, True)]]
          (initScrollAnimations (example_scroll_page False)))) = [RevealElement 1]"
  by (simp add: anim_eval) (simp add: numeral_2_eq_2)

text \<open>No event ever removes a target from the observer of the main script.\<close>

lemma handleIntersection_observed: "observed (handleIntersection entries p) = observed p"
  by (induction entries p rule: handleIntersection.induct) (simp_all add: setTimeout_def)

lemma main_script_never_unobserves: "observed (scroll_run evs p) = observed p"
proof (induction evs arbitrary: p)
  case Nil
  then show ?case by (simp add: scroll_run_def)
next
  case (Cons e evs)
  have "observed (scroll_step e p) = observed p"
    by (cases e)
       (simp_all add: scroll_step_def handleIntersection_observed tick_def
          scroll_callback_run_def clearTimeout_def split: option.splits scroll_callback.splits)
  with Cons[of "scroll_step e p"] show ?case
    by (simp add: scroll_run_def)
qed

text \<open>The animations script, on the same page, does stop observing the revealed card.\<close>

lemma animations_script_unobserves:
  "watchers (animations_init (example_reveal_page False)) = [{0, 1, 2}]
   \<and> watchers (reveal_run [DOMContentLoaded, Intersections 0 [(1, True)], Passed 150, TimerFired 1]
        (example_reveal_page False)) = [{0, 2}]
   \<and> ''active'' \<in> classList
        (page_elements (reveal_run
           [DOMContentLoaded, Intersections 0 [(1, True)], Passed 150, TimerFired 1]
           (example_reveal_page False)) ! 1)"
  by (simp add: anim_eval) (auto simp add: numeral_2_eq_2)

lemma animations_init_disabled: "shouldDisableAnimations p \<Longrightarrow> animations_init p = p"
  by (simp add: animations_init_def)

lemma initScrollAnimations_disabled: "shouldDisableAnimations q \<Longrightarrow> initScrollAnimations q = q"
  by (simp add: initScrollAnimations_def)

lemma dormant_step:
  assumes d: "dormant p es" and e: "data_no_animations p \<or> e \<noteq> MotionPreference False"
  shows "dormant (reveal_step e p) es \<and> data_no_animations (reveal_step e p) = data_no_animations p"
proof (cases e)
  case DOMContentLoaded
  with d show ?thesis
    by (simp add: reveal_step_def dormant_def animations_init_disabled)
next
  case (Intersections w entries)
  with d show ?thesis
    by (simp add: reveal_step_def dormant_def)
next
  case (MotionPreference b)
  with d e show ?thesis
    by (auto simp add: reveal_step_def dormant_def handleMotionPreferenceChange_def
        shouldDisableAnimations_def Let_def)
next
  case (Passed n)
  with d show ?thesis
    by (simp add: reveal_step_def dormant_def tick_def shouldDisableAnimations_def)
next
  case (TimerFired i)
  with d show ?thesis
    by (simp add: reveal_step_def dormant_def due_callback_def)
next
  case BeforeUnload
  with d show ?thesis
    by (simp add: reveal_step_def dormant_def cleanup_def shouldDisableAnimations_def)
qed

lemma dormant_run:
  "dormant p es \<Longrightarrow> keeps_opt_out p evs \<Longrightarrow> dormant (reveal_run evs p) es"
proof (induction evs arbitrary: p)
  case Nil
  then show ?case by (simp add: reveal_run_def)
next
  case (Cons e evs)
  from Cons.prems have e: "data_no_animations p \<or> e \<noteq> MotionPreference False"
    by (auto simp add: keeps_opt_out_def)
  from dormant_step[OF Cons.prems(1) e]
  have d: "dormant (reveal_step e p) es"
    and a: "data_no_animations (reveal_step e p) = data_no_animations p"
    by simp_all
  from Cons.prems(2) a have "keeps_opt_out (reveal_step e p) evs"
    by (auto simp add: keeps_opt_out_def)
  from Cons.IH[OF d this] show ?case
    by (simp add: reveal_run_def)
qed

lemma idle_scroll_step:
  assumes "observed q = {}" and "timers q = []"
  shows "observed (scroll_step e q) = {} \<and> timers (scroll_step e q) = []
       \<and> page_elements (scroll_step e q) = page_elements q"
  using assms
  by (cases e) (simp_all add: scroll_step_def tick_def due_callback_def)

lemma idle_scroll_run:
  "observed q = {} \<Longrightarrow> timers q = [] \<Longrightarrow> page_elements (scroll_run evs q) = page_elements q"
proof (induction evs arbitrary: q)
  case Nil
  then show ?case by (simp add: scroll_run_def)
next
  case (Cons e evs)
  from idle_scroll_step[OF Cons.prems, of e] Cons.IH[of "scroll_step e q"]
  show ?case
    by (simp add: scroll_run_def)
qed

text \<open>
  C7 (as amended). With the reduced-motion preference or the \<open>data-no-animations\<close>
  marker active, initialisation does nothing in either script. As long as the opt-out stays
  active (the marker is present, or the reduced-motion preference is not withdrawn), no
  event changes any element: the animations script creates no observer and sets no timer,
  so no element gets a reveal class, a delay or the \<open>active\<close> class; the main
  script observes nothing, so no element gets the hidden initial style.
\<close>

theorem reduced_motion_is_noop:
  "(shouldDisableAnimations p \<longrightarrow> animations_init p = p)
   \<and> (shouldDisableAnimations q \<longrightarrow> initScrollAnimations q = q)
   \<and> (shouldDisableAnimations p \<and> fresh p \<and> keeps_opt_out p evs \<longrightarrow>
        page_elements (reveal_run evs p) = page_elements p
        \<and> watchers (reveal_run evs p) = [] \<and> timers (reveal_run evs p) = [])
   \<and> (shouldDisableAnimations q \<and> observed q = {} \<and> timers q = [] \<longrightarrow>
        page_elements (scroll_run evs' (initScrollAnimations q)) = page_elements q)"
proof (intro conjI impI)
  show "animations_init p = p" if "shouldDisableAnimations p"
    using that by (rule animations_init_disabled)
  show "initScrollAnimations q = q" if "shouldDisableAnimations q"
    using that by (rule initScrollAnimations_disabled)
  show "page_elements (scroll_run evs' (initScrollAnimations q)) = page_elements q"
    if "shouldDisableAnimations q \<and> observed q = {} \<and> timers q = []"
    using that by (simp add: initScrollAnimations_disabled idle_scroll_run)
next
  assume a: "shouldDisableAnimations p \<and> fresh p \<and> keeps_opt_out p evs"
  then have "dormant p (page_elements p)"
    by (simp add: dormant_def fresh_def)
  with a have d: "dormant (reveal_run evs p) (page_elements p)"
    by (simp add: dormant_run)
  then show "page_elements (reveal_run evs p) = page_elements p"
    and "watchers (reveal_run evs p) = []" and "timers (reveal_run evs p) = []"
    by (simp_all add: dormant_def)
qed

theorem reduced_motion_is_noop_witness:
  "shouldDisableAnimations (example_reveal_page True)
   \<and> fresh (example_reveal_page True)
   \<and> keeps_opt_out (example_reveal_page True)
        [DOMContentLoaded, Passed 500, MotionPreference True, BeforeUnload]
   \<and> shouldDisableAnimations (example_scroll_page True)
   \<and> animations_init (example_reveal_page True) = example_reveal_page True
   \<and> initScrollAnimations (example_scroll_page True) = example_scroll_page True
   \<and> page_elements (reveal_run [DOMContentLoaded, Passed 500, MotionPreference True, BeforeUnload]
        (example_reveal_page True)) = [example_card, example_card, example_card]
   \<and> page_elements (scroll_run [Notified [(1, True)], Elapsed 100, Fired 1]
        (initScrollAnimations (example_scroll_page True)))
       = [example_card, example_card, example_card]"
proof -
  have h: "shouldDisableAnimations (example_reveal_page True)"
    "fresh (example_reveal_page True)"
    "keeps_opt_out (example_reveal_page True)
        [DOMContentLoaded, Passed 500, MotionPreference True, BeforeUnload]"
    "shouldDisableAnimations (example_scroll_page True)"
    "observed (example_scroll_page True) = {}" "timers (example_scroll_page True) = []"
    "page_elements (example_reveal_page True) = [example_card, example_card, example_card]"
    "page_elements (example_scroll_page True) = [example_card, example_card, example_card]"
    by (simp_all add: shouldDisableAnimations_def fresh_def keeps_opt_out_def
        example_reveal_page_def example_scroll_page_def)
  from reduced_motion_is_noop[of "example_reveal_page True" "example_scroll_page True"
      "[DOMContentLoaded, Passed 500, MotionPreference True, BeforeUnload]"
      "[Notified [(1, True)], Elapsed 100, Fired 1]"] h
  show ?thesis
    by metis
qed

text \<open>
  The claim as stated fails: it says that no element is ever given a reveal state when the
  preference was active at initialisation. When the reduced-motion preference is withdrawn
  later, the change handler of the animations script runs \<open>init\<close>: the cards get the
  class \<open>reveal\<close> and a delay and are observed, and a card that then comes into view
  gets the class \<open>active\<close>.
\<close>

theorem withdrawn_preference_counterexample:
  "shouldDisableAnimations (example_reveal_page True)
   \<and> fresh (example_reveal_page True)
   \<and> page_elements (reveal_run [DOMContentLoaded] (example_reveal_page True))
       = [example_card, example_card, example_card]
   \<and> classList (page_elements (reveal_run [DOMContentLoaded, MotionPreference False]
        (example_reveal_page True)) ! 0) = {''course-card'', ''reveal''}
   \<and> attributes (page_elements (reveal_run [DOMContentLoaded, MotionPreference False]
        (example_reveal_page True)) ! 1) ''data-animation-delay'' = Some (js ''150'')
   \<and> watchers (reveal_run [DOMContentLoaded, MotionPreference False]
        (example_reveal_page True)) = [{0, 1, 2}]
   \<and> classList (page_elements (reveal_run
        [DOMContentLoaded, MotionPreference False, Intersections 0 [(0, True)], TimerFired 1]
        (example_reveal_page True)) ! 0) = {''course-card'', ''reveal'', ''active''}"
  by (simp add: anim_eval fresh_def) (auto simp add: numeral_2_eq_2)

end
